theory Spec2Isabelle
  imports Complex_Main
begin

section \<open>PointPillars encoding: a shallow embedding of point\_pillars.cpp\<close>

text \<open>
  The source works on C \<open>float\<close> and \<open>double\<close>. Here a finite floating-point value is an
  exact \<^typ>\<open>real\<close>: rounding and overflow are left out. The places where the source can
  produce a non-finite value from finite operands (a division by zero, a logarithm of a
  value that is not positive) return the type \<open>fl\<close> below, which adds the IEEE special
  values; a zero divisor is taken as \<open>+0\<close>. C \<open>int\<close> is \<^typ>\<open>int\<close>; the conversions from
  floating point to an integer type are checked, since an out-of-range or non-finite
  operand is undefined behaviour in C++. The \<open>printTime\<close> argument of both entry points
  only prints timings and is left out.
\<close>

subsection \<open>Errors, floating-point special values, conversions\<close>

datatype error =
    RuntimeError string   \<comment> \<open>\<open>throw std::runtime_error(msg)\<close>\<close>
  | IndexError            \<comment> \<open>pybind11 \<open>at\<close>/\<open>mutable_at\<close> out of range\<close>
  | ValueError            \<comment> \<open>\<open>resize\<close> to a negative dimension\<close>
  | Undefined             \<comment> \<open>undefined behaviour of C++\<close>

definition ebind :: "error + 'a \<Rightarrow> ('a \<Rightarrow> error + 'b) \<Rightarrow> error + 'b" where
  "ebind m f = (case m of Inl e \<Rightarrow> Inl e | Inr v \<Rightarrow> f v)"

datatype fl = Fin real | PInf | NInf | NaN

definition fdiv :: "real \<Rightarrow> real \<Rightarrow> fl" where
  "fdiv a b = (if b \<noteq> 0 then Fin (a / b)
               else if a = 0 then NaN else if 0 < a then PInf else NInf)"

fun flog :: "fl \<Rightarrow> fl" where
  "flog (Fin v) = (if 0 < v then Fin (ln v) else if v = 0 then NInf else NaN)"
| "flog PInf = PInf"
| "flog NInf = NaN"
| "flog NaN = NaN"

fun fl_less :: "fl \<Rightarrow> fl \<Rightarrow> bool" where
  "fl_less (Fin a) (Fin b) = (a < b)"
| "fl_less (Fin a) PInf = True"
| "fl_less NInf (Fin b) = True"
| "fl_less NInf PInf = True"
| "fl_less _ _ = False"

fun fl_eq :: "fl \<Rightarrow> fl \<Rightarrow> bool" where
  "fl_eq NaN _ = False"
| "fl_eq _ NaN = False"
| "fl_eq a b = (a = b)"

fun is_finite :: "fl \<Rightarrow> bool" where
  "is_finite (Fin v) = True"
| "is_finite _ = False"

text \<open>\<open>static_cast<uint32_t>(std::floor(v))\<close>, \<open>static_cast<int>(std::floor(v))\<close> and
  \<open>static_cast<int>(std::ceil(v))\<close>.\<close>

fun floor_to_uint32 :: "fl \<Rightarrow> error + nat" where
  "floor_to_uint32 (Fin v) =
     (if 0 \<le> \<lfloor>v\<rfloor> \<and> \<lfloor>v\<rfloor> < 2 ^ 32 then Inr (nat \<lfloor>v\<rfloor>) else Inl Undefined)"
| "floor_to_uint32 _ = Inl Undefined"

definition int_range :: "int \<Rightarrow> bool" where
  "int_range k = (- (2 ^ 31) \<le> k \<and> k < 2 ^ 31)"

fun floor_to_int :: "fl \<Rightarrow> error + int" where
  "floor_to_int (Fin v) = (if int_range \<lfloor>v\<rfloor> then Inr \<lfloor>v\<rfloor> else Inl Undefined)"
| "floor_to_int _ = Inl Undefined"

fun ceil_to_int :: "fl \<Rightarrow> error + int" where
  "ceil_to_int (Fin v) = (if int_range \<lceil>v\<rceil> then Inr \<lceil>v\<rceil> else Inl Undefined)"
| "ceil_to_int _ = Inl Undefined"

text \<open>\<open>std::fmod\<close>: the remainder has the sign of the dividend. A zero divisor gives NaN
  in C; the source only divides by \<open>M_PI\<close> and \<open>2 * M_PI\<close>.\<close>

definition trunc :: "real \<Rightarrow> int" where
  "trunc v = (if 0 \<le> v then \<lfloor>v\<rfloor> else \<lceil>v\<rceil>)"

definition fmod :: "real \<Rightarrow> real \<Rightarrow> real" where
  "fmod a b = a - of_int (trunc (a / b)) * b"

definition clamp :: "real \<Rightarrow> real \<Rightarrow> real \<Rightarrow> real" where
  "clamp v lo hi = (if v < lo then lo else if hi < v then hi else v)"

subsection \<open>Dense arrays\<close>

text \<open>An output array: its shape and its cells. \<open>mutable_at\<close> checks every index against
  the shape, as pybind11 does.\<close>

record 'a tensor =
  dims :: "int list"
  elems :: "int list \<Rightarrow> 'a"

definition in_range :: "int list \<Rightarrow> int list \<Rightarrow> bool" where
  "in_range ds idx = list_all2 (\<lambda>i d. 0 \<le> i \<and> i < d) idx ds"

definition mutable_at :: "'a tensor \<Rightarrow> int list \<Rightarrow> 'a \<Rightarrow> error + 'a tensor" where
  "mutable_at t idx v =
     (if in_range (dims t) idx then Inr (t\<lparr>elems := (elems t)(idx := v)\<rparr>)
      else Inl IndexError)"

text \<open>A run of assignments \<open>tensor.mutable_at(...) = v\<close>, in program order.\<close>

fun write_all :: "'a tensor \<Rightarrow> (int list \<times> 'a) list \<Rightarrow> error + 'a tensor" where
  "write_all t [] = Inr t"
| "write_all t ((idx, v) # ws) = ebind (mutable_at t idx v) (\<lambda>t'. write_all t' ws)"

text \<open>\<open>resize\<close> followed by the loop that clears the buffer.\<close>

definition zeros :: "int list \<Rightarrow> 'a \<Rightarrow> error + 'a tensor" where
  "zeros ds z = (if list_all (\<lambda>d. 0 \<le> d) ds then Inr \<lparr>dims = ds, elems = (\<lambda>_. z)\<rparr>
                 else Inl ValueError)"

subsection \<open>createPillars\<close>

record PillarPoint =
  p_x :: real
  p_y :: real
  p_z :: real
  p_intensity :: real
  p_xc :: real
  p_yc :: real
  p_zc :: real

record PillarPointRGB = PillarPoint +
  p_r :: real
  p_g :: real
  p_b :: real

text \<open>The input array of points: its shape and, for a rank-2 array, its rows.
  \<open>points.at(i, j)\<close> is checked.\<close>

record points_array =
  shape :: "int list"
  rows :: "real list list"

definition ndim :: "points_array \<Rightarrow> nat" where
  "ndim a = length (shape a)"

definition at2 :: "points_array \<Rightarrow> int \<Rightarrow> int \<Rightarrow> error + real" where
  "at2 a i j =
     (if ndim a = 2 \<and> 0 \<le> i \<and> i < shape a ! 0 \<and> 0 \<le> j \<and> j < shape a ! 1
         \<and> nat i < length (rows a) \<and> nat j < length (rows a ! nat i)
      then Inr (rows a ! nat i ! nat j) else Inl IndexError)"

text \<open>The \<open>std::unordered_map\<close> from cell keys to vectors of points is a list of cells.
  \<open>map[{xIndex, yIndex}].emplace_back(p)\<close> appends to the vector of an existing key or
  adds a cell for a new one.\<close>

type_synonym 'p cells = "((nat \<times> nat) \<times> 'p list) list"

fun emplace_back :: "'p cells \<Rightarrow> nat \<times> nat \<Rightarrow> 'p \<Rightarrow> 'p cells" where
  "emplace_back [] k p = [(k, [p])]"
| "emplace_back ((k', ps) # m) k p =
     (if k' = k then (k', ps @ [p]) # m else (k', ps) # emplace_back m k p)"

record grid =
  xStep :: real
  yStep :: real
  xMin :: real
  xMax :: real
  yMin :: real
  yMax :: real
  zMin :: real
  zMax :: real

definition out_of_bounds :: "grid \<Rightarrow> real \<Rightarrow> real \<Rightarrow> real \<Rightarrow> bool" where
  "out_of_bounds G px py pz =
     (px < xMin G \<or> px \<ge> xMax G \<or> py < yMin G \<or> py \<ge> yMax G \<or> pz < zMin G \<or> pz \<ge> zMax G)"

definition too_close :: "real \<Rightarrow> real \<Rightarrow> real \<Rightarrow> bool" where
  "too_close minDistance px py = (minDistance > 0 \<and> px ^ 2 + py ^ 2 < minDistance ^ 2)"

text \<open>One round of the binning loop of the 4-column branch (source lines 78 to 104).\<close>

definition bin_point :: "grid \<Rightarrow> real \<Rightarrow> points_array \<Rightarrow> PillarPoint cells \<Rightarrow> int
    \<Rightarrow> error + PillarPoint cells" where
  "bin_point G minDistance points m i =
     ebind (at2 points i 0) (\<lambda>px. ebind (at2 points i 1) (\<lambda>py. ebind (at2 points i 2) (\<lambda>pz.
       if out_of_bounds G px py pz \<or> too_close minDistance px py then Inr m
       else
         ebind (floor_to_uint32 (fdiv (px - xMin G) (xStep G))) (\<lambda>xIndex.
         ebind (floor_to_uint32 (fdiv (py - yMin G) (yStep G))) (\<lambda>yIndex.
         ebind (at2 points i 3) (\<lambda>pin.
           Inr (emplace_back m (xIndex, yIndex)
                 \<lparr>p_x = px, p_y = py, p_z = pz, p_intensity = clamp pin 0 1,
                  p_xc = 0, p_yc = 0, p_zc = 0\<rparr>)))))))"

text \<open>One round of the binning loop of the 7-column branch (source lines 225 to 253).\<close>

definition bin_point_rgb :: "grid \<Rightarrow> points_array \<Rightarrow> PillarPointRGB cells \<Rightarrow> int
    \<Rightarrow> error + PillarPointRGB cells" where
  "bin_point_rgb G points m i =
     ebind (at2 points i 0) (\<lambda>px. ebind (at2 points i 1) (\<lambda>py. ebind (at2 points i 2) (\<lambda>pz.
       if out_of_bounds G px py pz then Inr m
       else
         ebind (floor_to_uint32 (fdiv (px - xMin G) (xStep G))) (\<lambda>xIndex.
         ebind (floor_to_uint32 (fdiv (py - yMin G) (yStep G))) (\<lambda>yIndex.
         ebind (at2 points i 3) (\<lambda>pin.
         ebind (at2 points i 4) (\<lambda>pr. ebind (at2 points i 5) (\<lambda>pg. ebind (at2 points i 6) (\<lambda>pb.
           Inr (emplace_back m (xIndex, yIndex)
                 \<lparr>p_x = px, p_y = py, p_z = pz, p_intensity = clamp pin 0 1,
                  p_xc = 0, p_yc = 0, p_zc = 0, p_r = pr, p_g = pg, p_b = pb\<rparr>))))))))))"

text \<open>A loop with a state and an error exit.\<close>

fun efold :: "('s \<Rightarrow> 'a \<Rightarrow> error + 's) \<Rightarrow> 'a list \<Rightarrow> 's \<Rightarrow> error + 's" where
  "efold f [] s = Inr s"
| "efold f (a # as) s = ebind (f s a) (efold f as)"

definition row_ids :: "points_array \<Rightarrow> int list" where
  "row_ids points = map int [0 ..< nat (shape points ! 0)]"

text \<open>The nine features every point row holds, and the three colour features of the
  7-column branch.\<close>

definition feature_writes :: "grid \<Rightarrow> int \<Rightarrow> int \<Rightarrow> int \<Rightarrow> int \<Rightarrow> 'a PillarPoint_scheme
    \<Rightarrow> (int list \<times> real) list" where
  "feature_writes G pillarId pointId xIndex yIndex p =
     [([0, pillarId, pointId, 0], p_x p),
      ([0, pillarId, pointId, 1], p_y p),
      ([0, pillarId, pointId, 2], p_z p),
      ([0, pillarId, pointId, 3], p_intensity p),
      ([0, pillarId, pointId, 4], p_xc p),
      ([0, pillarId, pointId, 5], p_yc p),
      ([0, pillarId, pointId, 6], p_zc p),
      ([0, pillarId, pointId, 7], p_x p - (of_int xIndex * xStep G + xMin G)),
      ([0, pillarId, pointId, 8], p_y p - (of_int yIndex * yStep G + yMin G))]"

definition no_colour :: "PillarPoint \<Rightarrow> int \<Rightarrow> int \<Rightarrow> (int list \<times> real) list" where
  "no_colour p pillarId pointId = []"

definition colour_writes :: "PillarPointRGB \<Rightarrow> int \<Rightarrow> int \<Rightarrow> (int list \<times> real) list" where
  "colour_writes p pillarId pointId =
     [([0, pillarId, pointId, 9], p_r p),
      ([0, pillarId, pointId, 10], p_g p),
      ([0, pillarId, pointId, 11], p_b p)]"

text \<open>The loop over the points of one pillar (source lines 166 to 195 and 316 to 350): it
  stops at \<open>maxPointsPerPillar\<close>.\<close>

fun emit_points :: "grid \<Rightarrow> ('a PillarPoint_scheme \<Rightarrow> int \<Rightarrow> int \<Rightarrow> (int list \<times> real) list)
    \<Rightarrow> int \<Rightarrow> int \<Rightarrow> int \<Rightarrow> int \<Rightarrow> real tensor \<Rightarrow> int \<Rightarrow> 'a PillarPoint_scheme list
    \<Rightarrow> error + real tensor" where
  "emit_points G extra maxPointsPerPillar pillarId xIndex yIndex t pointId [] = Inr t"
| "emit_points G extra maxPointsPerPillar pillarId xIndex yIndex t pointId (p # ps) =
     (if pointId \<ge> maxPointsPerPillar then Inr t
      else ebind (write_all t (feature_writes G pillarId pointId xIndex yIndex p
                                 @ extra p pillarId pointId))
             (\<lambda>t'. emit_points G extra maxPointsPerPillar pillarId xIndex yIndex t'
                      (pointId + 1) ps))"

definition mean :: "real list \<Rightarrow> real" where
  "mean vs = sum_list vs / of_nat (length vs)"

definition centre :: "real \<Rightarrow> real \<Rightarrow> real \<Rightarrow> 'a PillarPoint_scheme \<Rightarrow> 'a PillarPoint_scheme" where
  "centre xMean yMean zMean p =
     p\<lparr>p_xc := p_x p - xMean, p_yc := p_y p - yMean, p_zc := p_z p - zMean\<rparr>"

text \<open>The body of the loop over the cells (source lines 141 to 197 and 291 to 352).\<close>

definition emit_pillar :: "grid \<Rightarrow> ('a PillarPoint_scheme \<Rightarrow> int \<Rightarrow> int \<Rightarrow> (int list \<times> real) list)
    \<Rightarrow> int \<Rightarrow> real tensor \<times> int tensor \<Rightarrow> int \<Rightarrow> (nat \<times> nat) \<times> 'a PillarPoint_scheme list
    \<Rightarrow> error + real tensor \<times> int tensor" where
  "emit_pillar G extra maxPointsPerPillar ti pillarId cell =
     (let ps = snd cell;
          xMean = mean (map p_x ps);
          yMean = mean (map p_y ps);
          zMean = mean (map p_z ps);
          ps' = map (centre xMean yMean zMean) ps
      in ebind (floor_to_int (fdiv (xMean - xMin G) (xStep G))) (\<lambda>xIndex.
         ebind (floor_to_int (fdiv (yMean - yMin G) (yStep G))) (\<lambda>yIndex.
         ebind (write_all (snd ti) [([0, pillarId, 1], xIndex), ([0, pillarId, 2], yIndex)])
           (\<lambda>indices'.
         ebind (emit_points G extra maxPointsPerPillar pillarId xIndex yIndex (fst ti) 0 ps')
           (\<lambda>tensor'. Inr (tensor', indices'))))))"

text \<open>The loop over the cells: it stops at \<open>maxPillars\<close>.\<close>

fun emit_pillars :: "grid \<Rightarrow> ('a PillarPoint_scheme \<Rightarrow> int \<Rightarrow> int \<Rightarrow> (int list \<times> real) list)
    \<Rightarrow> int \<Rightarrow> int \<Rightarrow> real tensor \<times> int tensor \<Rightarrow> int
    \<Rightarrow> ((nat \<times> nat) \<times> 'a PillarPoint_scheme list) list \<Rightarrow> error + real tensor \<times> int tensor" where
  "emit_pillars G extra maxPointsPerPillar maxPillars ti pillarId [] = Inr ti"
| "emit_pillars G extra maxPointsPerPillar maxPillars ti pillarId (cell # cs) =
     (if pillarId \<ge> maxPillars then Inr ti
      else ebind (emit_pillar G extra maxPointsPerPillar ti pillarId cell)
             (\<lambda>ti'. emit_pillars G extra maxPointsPerPillar maxPillars ti' (pillarId + 1) cs))"

text \<open>Everything after the binning loop, for either branch: the two arrays are resized
  and cleared, then filled. \<open>nfeat\<close> is 9 or 12.\<close>

definition encode_cells :: "grid \<Rightarrow> ('a PillarPoint_scheme \<Rightarrow> int \<Rightarrow> int \<Rightarrow> (int list \<times> real) list)
    \<Rightarrow> int \<Rightarrow> int \<Rightarrow> int \<Rightarrow> ((nat \<times> nat) \<times> 'a PillarPoint_scheme list) list
    \<Rightarrow> error + real tensor \<times> int tensor" where
  "encode_cells G extra nfeat maxPointsPerPillar maxPillars cs =
     ebind (zeros [1, maxPillars, maxPointsPerPillar, nfeat] 0) (\<lambda>tensor.
     ebind (zeros [1, maxPillars, 3] 0) (\<lambda>indices.
       emit_pillars G extra maxPointsPerPillar maxPillars (tensor, indices) 0 cs))"

text \<open>The order in which \<open>for (auto &pair : map)\<close> visits the cells is that of the hash
  table and is not fixed by the source: \<open>iter\<close> and \<open>iter_rgb\<close> take the cells in
  the order of their first insertion and return them in the order of the visit.

  \<open>points.shape()[1]\<close> reads past the shape of an array of rank below 2. When the second
  dimension is neither 4 nor 7, neither branch is taken and control reaches the end of
  the function, which returns a value, without a \<open>return\<close> or a \<open>throw\<close>.\<close>

definition createPillars :: "(PillarPoint cells \<Rightarrow> PillarPoint cells)
    \<Rightarrow> (PillarPointRGB cells \<Rightarrow> PillarPointRGB cells)
    \<Rightarrow> points_array \<Rightarrow> int \<Rightarrow> int \<Rightarrow> grid \<Rightarrow> real \<Rightarrow> error + real tensor \<times> int tensor" where
  "createPillars iter iter_rgb points maxPointsPerPillar maxPillars G minDistance =
     (if ndim points < 2 then Inl Undefined
      else if shape points ! 1 = 4 then
        (if ndim points \<noteq> 2 \<or> shape points ! 1 \<noteq> 4
         then Inl (RuntimeError
           ''numpy array with shape (n, 4) expected (n being the number of points)'')
         else ebind (efold (bin_point G minDistance points) (row_ids points) [])
                (\<lambda>m. encode_cells G no_colour 9 maxPointsPerPillar maxPillars (iter m)))
      else if shape points ! 1 = 7 then
        (if ndim points \<noteq> 2 \<or> shape points ! 1 \<noteq> 7
         then Inl (RuntimeError
           ''numpy array with shape (n, 7) expected (n being the number of points)'')
         else ebind (efold (bin_point_rgb G points) (row_ids points) [])
                (\<lambda>m. encode_cells G colour_writes 12 maxPointsPerPillar maxPillars (iter_rgb m)))
      else Inl Undefined)"

subsection \<open>Geometry\<close>

record BoundingBox3D =
  box_x :: real
  box_y :: real
  box_z :: real
  box_length :: real
  box_width :: real
  box_height :: real
  box_yaw :: real
  base_yaw :: real
  classId :: real

record Point2D =
  pt_x :: real
  pt_y :: real

type_synonym Polyline2D = "Point2D list"

text \<open>The two intersection routines divide by \<open>den\<close>. \<open>clip\<close> calls them only for an
  edge whose end points lie on different sides of the clipper line, and then \<open>den\<close> is
  the difference of the two positions (lemma \<open>clip_den\<close> below), so that in exact
  arithmetic the divisor is never zero.\<close>

definition xIntersect :: "real \<Rightarrow> real \<Rightarrow> real \<Rightarrow> real \<Rightarrow> real \<Rightarrow> real \<Rightarrow> real \<Rightarrow> real \<Rightarrow> real" where
  "xIntersect x1 y1 x2 y2 x3 y3 x4 y4 =
     (let num = (x1 * y2 - y1 * x2) * (x3 - x4) - (x1 - x2) * (x3 * y4 - y3 * x4);
          den = (x1 - x2) * (y3 - y4) - (y1 - y2) * (x3 - x4)
      in num / den)"

definition yIntersect :: "real \<Rightarrow> real \<Rightarrow> real \<Rightarrow> real \<Rightarrow> real \<Rightarrow> real \<Rightarrow> real \<Rightarrow> real \<Rightarrow> real" where
  "yIntersect x1 y1 x2 y2 x3 y3 x4 y4 =
     (let num = (x1 * y2 - y1 * x2) * (y3 - y4) - (y1 - y2) * (x3 * y4 - y3 * x4);
          den = (x1 - x2) * (y3 - y4) - (y1 - y2) * (x3 - x4)
      in num / den)"

text \<open>The shoelace loop: \<open>j\<close> is the vertex before \<open>i\<close>, starting at the last one.\<close>

fun shoelace :: "Point2D \<Rightarrow> Polyline2D \<Rightarrow> real \<Rightarrow> real" where
  "shoelace j [] area = area"
| "shoelace j (p # ps) area =
     shoelace p ps (area + (pt_x j + pt_x p) * (pt_y j - pt_y p))"

definition polygonArea :: "Polyline2D \<Rightarrow> real" where
  "polygonArea polygon =
     (if polygon = [] then 0 else \<bar>shoelace (last polygon) polygon 0 / 2\<bar>)"

definition rotatedX :: "real \<Rightarrow> real \<Rightarrow> real \<Rightarrow> real" where
  "rotatedX px py angle = px * cos angle - py * sin angle"

definition rotatedY :: "real \<Rightarrow> real \<Rightarrow> real \<Rightarrow> real" where
  "rotatedY px py angle = px * sin angle + py * cos angle"

definition boundingBox3DToTopDown :: "BoundingBox3D \<Rightarrow> Polyline2D" where
  "boundingBox3DToTopDown box1 =
     [\<lparr>pt_x = rotatedX (- 0.5 * box_length box1) (0.5 * box_width box1) (box_yaw box1) + box_x box1,
       pt_y = rotatedY (- 0.5 * box_length box1) (0.5 * box_width box1) (box_yaw box1) + box_y box1\<rparr>,
      \<lparr>pt_x = rotatedX (0.5 * box_length box1) (0.5 * box_width box1) (box_yaw box1) + box_x box1,
       pt_y = rotatedY (0.5 * box_length box1) (0.5 * box_width box1) (box_yaw box1) + box_y box1\<rparr>,
      \<lparr>pt_x = rotatedX (0.5 * box_length box1) (- 0.5 * box_width box1) (box_yaw box1) + box_x box1,
       pt_y = rotatedY (0.5 * box_length box1) (- 0.5 * box_width box1) (box_yaw box1) + box_y box1\<rparr>,
      \<lparr>pt_x = rotatedX (- 0.5 * box_length box1) (- 0.5 * box_width box1) (box_yaw box1) + box_x box1,
       pt_y = rotatedY (- 0.5 * box_length box1) (- 0.5 * box_width box1) (box_yaw box1) + box_y box1\<rparr>]"

text \<open>What one round of the loop of \<open>clip\<close> appends for the polygon edge from \<open>i\<close> to
  \<open>k\<close>, and the loop itself: \<open>k\<close> is the vertex after \<open>i\<close>, cyclically.\<close>

definition clip_edge :: "real \<Rightarrow> real \<Rightarrow> real \<Rightarrow> real \<Rightarrow> Point2D \<times> Point2D \<Rightarrow> Polyline2D" where
  "clip_edge x1 y1 x2 y2 ik =
     (let ix = pt_x (fst ik); iy = pt_y (fst ik);
          kx = pt_x (snd ik); ky = pt_y (snd ik);
          i_pos = (x2 - x1) * (iy - y1) - (y2 - y1) * (ix - x1);
          k_pos = (x2 - x1) * (ky - y1) - (y2 - y1) * (kx - x1)
      in if i_pos < 0 \<and> k_pos < 0 then [\<lparr>pt_x = kx, pt_y = ky\<rparr>]
         else if i_pos \<ge> 0 \<and> k_pos < 0 then
           [\<lparr>pt_x = xIntersect x1 y1 x2 y2 ix iy kx ky, pt_y = yIntersect x1 y1 x2 y2 ix iy kx ky\<rparr>,
            \<lparr>pt_x = kx, pt_y = ky\<rparr>]
         else if i_pos < 0 \<and> k_pos \<ge> 0 then
           [\<lparr>pt_x = xIntersect x1 y1 x2 y2 ix iy kx ky, pt_y = yIntersect x1 y1 x2 y2 ix iy kx ky\<rparr>]
         else [])"

definition clip :: "Polyline2D \<Rightarrow> real \<Rightarrow> real \<Rightarrow> real \<Rightarrow> real \<Rightarrow> Polyline2D" where
  "clip poly_points x1 y1 x2 y2 =
     concat (map (clip_edge x1 y1 x2 y2) (zip poly_points (rotate1 poly_points)))"

definition sutherlandHodgmanClip :: "Polyline2D \<Rightarrow> Polyline2D \<Rightarrow> Polyline2D" where
  "sutherlandHodgmanClip poly_points_vector clipper_points =
     foldl (\<lambda>clipped ik. clip clipped (pt_x (fst ik)) (pt_y (fst ik)) (pt_x (snd ik)) (pt_y (snd ik)))
       poly_points_vector (zip clipper_points (rotate1 clipper_points))"

definition iou :: "BoundingBox3D \<Rightarrow> BoundingBox3D \<Rightarrow> fl" where
  "iou box1 box2 =
     (let box_as_vector = boundingBox3DToTopDown box1;
          box_as_vector_2 = boundingBox3DToTopDown box2;
          clipped_vector = sutherlandHodgmanClip box_as_vector box_as_vector_2;
          area_poly1 = polygonArea box_as_vector;
          area_poly2 = polygonArea box_as_vector_2;
          area_overlap = polygonArea clipped_vector
      in fdiv area_overlap (area_poly1 + area_poly2 - area_overlap))"

definition clip_int :: "int \<Rightarrow> int \<Rightarrow> int \<Rightarrow> int" where
  "clip_int n lower upper = max lower (min n upper)"

subsection \<open>createPillarsTarget\<close>

text \<open>The input arrays have the rank the source reads them with: a matrix is a list of
  rows, a vector a list. \<open>at\<close> is checked.\<close>

definition at1 :: "'a list \<Rightarrow> int \<Rightarrow> error + 'a" where
  "at1 a i = (if 0 \<le> i \<and> nat i < length a then Inr (a ! nat i) else Inl IndexError)"

definition at_2 :: "'a list list \<Rightarrow> int \<Rightarrow> int \<Rightarrow> error + 'a" where
  "at_2 a i j = ebind (at1 a i) (\<lambda>row. at1 row j)"

record target_input =
  objectPositions :: "real list list"
  objectDimensions :: "real list list"
  objectYaws :: "real list"
  objectClassIds :: "int list"
  anchorDimensions :: "real list list"
  anchorZHeights :: "real list"
  anchorYaws :: "real list"
  positiveThreshold :: real
  negativeThreshold :: real
  angle_threshold :: real
  nbClasses :: int
  downscalingFactor :: int
  bounds :: grid

text \<open>The loop that parses the anchors (source lines 587 to 604).\<close>

definition parse_anchor :: "target_input \<Rightarrow> BoundingBox3D list \<Rightarrow> int \<Rightarrow> error + BoundingBox3D list" where
  "parse_anchor I anchorBoxes i =
     ebind (at_2 (anchorDimensions I) i 0) (\<lambda>l.
     ebind (at_2 (anchorDimensions I) i 1) (\<lambda>w.
     ebind (at_2 (anchorDimensions I) i 2) (\<lambda>h.
     ebind (at1 (anchorZHeights I) i) (\<lambda>z.
     ebind (at1 (anchorYaws I) i) (\<lambda>yaw.
       Inr (anchorBoxes @
         [\<lparr>box_x = 0, box_y = 0, box_z = z, box_length = l, box_width = w, box_height = h,
           box_yaw = yaw, base_yaw = yaw, classId = 0\<rparr>]))))))"

definition diagonal :: "BoundingBox3D \<Rightarrow> real" where
  "diagonal b = sqrt ((box_width b) ^ 2 + (box_length b) ^ 2)"

text \<open>The loop that parses the labels (source lines 606 to 627): a box whose centre is
  outside the grid is skipped.\<close>

definition outside_grid :: "grid \<Rightarrow> real \<Rightarrow> real \<Rightarrow> bool" where
  "outside_grid G px py = (px < xMin G \<or> px \<ge> xMax G \<or> py < yMin G \<or> py \<ge> yMax G)"

definition parse_label :: "target_input \<Rightarrow> BoundingBox3D list \<Rightarrow> int \<Rightarrow> error + BoundingBox3D list" where
  "parse_label I labelBoxes i =
     ebind (at_2 (objectPositions I) i 0) (\<lambda>px.
     ebind (at_2 (objectPositions I) i 1) (\<lambda>py.
       if outside_grid (bounds I) px py then Inr labelBoxes
       else
         ebind (at_2 (objectPositions I) i 2) (\<lambda>pz.
         ebind (at_2 (objectDimensions I) i 0) (\<lambda>l.
         ebind (at_2 (objectDimensions I) i 1) (\<lambda>w.
         ebind (at_2 (objectDimensions I) i 2) (\<lambda>h.
         ebind (at1 (objectYaws I) i) (\<lambda>yaw.
         ebind (at1 (objectClassIds I) i) (\<lambda>c.
           Inr (labelBoxes @
             [\<lparr>box_x = px, box_y = py, box_z = pz, box_length = l, box_width = w, box_height = h,
               box_yaw = yaw, base_yaw = 0, classId = of_int c\<rparr>])))))))))"

definition count_upto :: "nat \<Rightarrow> int list" where
  "count_upto n = map int [0 ..< n]"

text \<open>The ten channels of a positive assignment, written at both places of the source
  (lines 704 to 744 and 798 to 837). The two places differ in the coordinates
  \<open>ax\<close>, \<open>ay\<close> the offsets of channels 1 and 2 are taken from and in the diagonal.\<close>

definition heading_flip :: "real \<Rightarrow> real" where
  "heading_flip delta_yaw_o =
     (if \<bar>delta_yaw_o\<bar> < pi / 2 \<and> \<bar>delta_yaw_o\<bar> > 1.5 * pi then 1 else 0)"

definition yaw_sine :: "real \<Rightarrow> real" where
  "yaw_sine delta_yaw_no = sin (if \<bar>delta_yaw_no\<bar> > pi / 2 then - delta_yaw_no else delta_yaw_no)"

definition positive_writes :: "int \<Rightarrow> int \<Rightarrow> int \<Rightarrow> int \<Rightarrow> BoundingBox3D \<Rightarrow> BoundingBox3D
    \<Rightarrow> real \<Rightarrow> real \<Rightarrow> real \<Rightarrow> (int list \<times> fl) list" where
  "positive_writes objectCount xId yId anchorId labelBox anchorBox ax ay diag =
     [([objectCount, xId, yId, anchorId, 0], Fin 1),
      ([objectCount, xId, yId, anchorId, 1], fdiv (box_x labelBox - ax) diag),
      ([objectCount, xId, yId, anchorId, 2], fdiv (box_y labelBox - ay) diag),
      ([objectCount, xId, yId, anchorId, 3],
         fdiv (box_z labelBox - box_z anchorBox) (box_height anchorBox)),
      ([objectCount, xId, yId, anchorId, 4],
         flog (fdiv (box_length labelBox) (box_length anchorBox))),
      ([objectCount, xId, yId, anchorId, 5],
         flog (fdiv (box_width labelBox) (box_width anchorBox))),
      ([objectCount, xId, yId, anchorId, 6],
         flog (fdiv (box_height labelBox) (box_height anchorBox))),
      ([objectCount, xId, yId, anchorId, 7],
         Fin (yaw_sine (fmod (box_yaw labelBox - base_yaw anchorBox) pi))),
      ([objectCount, xId, yId, anchorId, 8],
         Fin (heading_flip (fmod (box_yaw labelBox - base_yaw anchorBox) (2 * pi)))),
      ([objectCount, xId, yId, anchorId, 9], Fin (classId labelBox))]"

text \<open>The state of the search over the window of one object.\<close>

record search =
  maxIou :: fl
  bestAnchor :: BoundingBox3D
  bestAnchorId :: int
  target :: "fl tensor"

text \<open>The anchor is moved to the cell and turned (source lines 674 to 691). The fields
  written here are written again in every round before they are read, so that the
  vector of anchors itself need not be carried from round to round.\<close>

definition place_anchor :: "real \<Rightarrow> real \<Rightarrow> real \<Rightarrow> BoundingBox3D \<Rightarrow> BoundingBox3D \<Rightarrow> BoundingBox3D" where
  "place_anchor angle_thr px py labelBox anchorBox =
     (let delta_yaw_no = fmod (box_yaw labelBox - base_yaw anchorBox) pi
      in anchorBox\<lparr>box_x := px, box_y := py,
           box_yaw := (if \<bar>delta_yaw_no\<bar> < angle_thr \<or> pi - \<bar>delta_yaw_no\<bar> < angle_thr
                       then box_yaw labelBox else base_yaw anchorBox)\<rparr>)"

text \<open>The body of the loop over the anchors (source lines 672 to 756).\<close>

definition anchor_step :: "target_input \<Rightarrow> real list \<Rightarrow> BoundingBox3D \<Rightarrow> int \<Rightarrow> int \<Rightarrow> int
    \<Rightarrow> search \<Rightarrow> int \<times> BoundingBox3D \<Rightarrow> error + search" where
  "anchor_step I anchorDiagonals labelBox objectCount xId yId s ca =
     (let anchorCount = fst ca;
          px = of_int xId * xStep (bounds I) * of_int (downscalingFactor I) + xMin (bounds I);
          py = of_int yId * yStep (bounds I) * of_int (downscalingFactor I) + yMin (bounds I);
          anchorBox = place_anchor (angle_threshold I) px py labelBox (snd ca);
          iouOverlap = iou anchorBox labelBox;
          s1 = (if fl_less (maxIou s) iouOverlap
                then s\<lparr>maxIou := iouOverlap, bestAnchor := anchorBox, bestAnchorId := anchorCount\<rparr>
                else s)
      in ebind (write_all (target s1)
                 (if fl_less (Fin (positiveThreshold I)) iouOverlap then
                    positive_writes objectCount xId yId anchorCount labelBox anchorBox
                      (box_x anchorBox) (box_y anchorBox) (anchorDiagonals ! nat anchorCount)
                  else if fl_less iouOverlap (Fin (negativeThreshold I)) then
                    [([objectCount, xId, yId, anchorCount, 0], Fin 0)]
                  else [([objectCount, xId, yId, anchorCount, 0], Fin (- 1))]))
           (\<lambda>t. Inr (s1\<lparr>target := t\<rparr>)))"

definition enumerate_anchors :: "BoundingBox3D list \<Rightarrow> (int \<times> BoundingBox3D) list" where
  "enumerate_anchors anchorBoxes = zip (count_upto (length anchorBoxes)) anchorBoxes"

text \<open>The loops over \<open>yId\<close> and \<open>xId\<close> (source lines 664 to 758).\<close>

definition search_window :: "target_input \<Rightarrow> BoundingBox3D list \<Rightarrow> real list \<Rightarrow> BoundingBox3D
    \<Rightarrow> int \<Rightarrow> int list \<Rightarrow> int list \<Rightarrow> search \<Rightarrow> error + search" where
  "search_window I anchorBoxes anchorDiagonals labelBox objectCount xIds yIds s =
     efold (\<lambda>s xId.
        efold (\<lambda>s yId.
           efold (anchor_step I anchorDiagonals labelBox objectCount xId yId)
             (enumerate_anchors anchorBoxes) s)
          yIds s)
       xIds s"

text \<open>The fallback (source lines 772 to 851), one round for an offset \<open>(dx, dy)\<close>.\<close>

definition fallback_step :: "target_input \<Rightarrow> int \<Rightarrow> int \<Rightarrow> BoundingBox3D \<Rightarrow> int
    \<Rightarrow> BoundingBox3D \<Rightarrow> int \<Rightarrow> int \<Rightarrow> int \<Rightarrow> fl tensor \<Rightarrow> int \<times> int \<Rightarrow> error + fl tensor" where
  "fallback_step I xSize ySize labelBox objectCount best bestId xId_0 yId_0 t d =
     (let dx = fst d; dy = snd d;
          xId = clip_int (xId_0 + dx) 0 (xSize - 1);
          yId = clip_int (yId_0 + dy) 0 (ySize - 1)
      in if dx = 0 \<and> dy = 0 then
           (let diag = sqrt ((box_width best) ^ 2 + (box_length best) ^ 2);
                px = of_int xId * xStep (bounds I) * of_int (downscalingFactor I) + xMin (bounds I);
                py = of_int yId * yStep (bounds I) * of_int (downscalingFactor I) + yMin (bounds I)
            in write_all t (positive_writes objectCount xId yId bestId labelBox best px py diag))
         else if xId_0 + dx \<ge> 0 \<and> xId_0 + dx < xSize \<and> yId_0 + dy \<ge> 0 \<and> yId_0 + dy < ySize then
           write_all t [([objectCount, xId, yId, bestId, 0], Fin (- 1))]
         else Inr t)"

definition offsets :: "(int \<times> int) list" where
  "offsets = concat (map (\<lambda>dx. map (\<lambda>dy. (dx, dy)) [-2, -1, 0, 1, 2]) [-2, -1, 0, 1, 2])"

definition cell_of :: "real \<Rightarrow> real \<Rightarrow> real \<Rightarrow> int \<Rightarrow> error + int" where
  "cell_of v lo step ds = floor_to_int (fdiv (v - lo) (step * of_int ds))"

definition fallback :: "target_input \<Rightarrow> int \<Rightarrow> int \<Rightarrow> BoundingBox3D \<Rightarrow> int \<Rightarrow> search
    \<Rightarrow> error + fl tensor" where
  "fallback I xSize ySize labelBox objectCount s =
     ebind (cell_of (box_x labelBox) (xMin (bounds I)) (xStep (bounds I)) (downscalingFactor I))
       (\<lambda>xId_0.
     ebind (cell_of (box_y labelBox) (yMin (bounds I)) (yStep (bounds I)) (downscalingFactor I))
       (\<lambda>yId_0.
       efold (fallback_step I xSize ySize labelBox objectCount (bestAnchor s) (bestAnchorId s)
                xId_0 yId_0) offsets (target s)))"

definition zero_box :: BoundingBox3D where
  "zero_box = \<lparr>box_x = 0, box_y = 0, box_z = 0, box_length = 0, box_width = 0, box_height = 0,
               box_yaw = 0, base_yaw = 0, classId = 0\<rparr>"

definition int_upto :: "int \<Rightarrow> int \<Rightarrow> int list" where
  "int_upto lo hi = map (\<lambda>k. lo + int k) [0 ..< nat (hi - lo)]"

text \<open>The body of the loop over the labels (source lines 645 to 864).\<close>

definition encode_object :: "target_input \<Rightarrow> int \<Rightarrow> int \<Rightarrow> BoundingBox3D list \<Rightarrow> real list
    \<Rightarrow> int \<times> fl tensor \<Rightarrow> BoundingBox3D \<Rightarrow> error + int \<times> fl tensor" where
  "encode_object I xSize ySize anchorBoxes anchorDiagonals ot labelBox =
     (let objectCount = fst ot;
          G = bounds I;
          objectDiameter = sqrt ((box_width labelBox) ^ 2 + (box_length labelBox) ^ 2)
      in ebind (ceil_to_int (fdiv objectDiameter (xStep G * of_int (downscalingFactor I))))
           (\<lambda>offset.
         ebind (cell_of (box_x labelBox) (xMin G) (xStep G) (downscalingFactor I)) (\<lambda>xC.
         ebind (cell_of (box_y labelBox) (yMin G) (yStep G) (downscalingFactor I)) (\<lambda>yC.
           (let xStart = clip_int (xC - offset) 0 xSize;
                xEnd = clip_int (xC + offset) 0 xSize;
                yStart = clip_int (yC - offset) 0 ySize;
                yEnd = clip_int (yC + offset) 0 ySize
            in ebind (search_window I anchorBoxes anchorDiagonals labelBox objectCount
                        (int_upto xStart xEnd) (int_upto yStart yEnd)
                        \<lparr>maxIou = Fin 0, bestAnchor = zero_box, bestAnchorId = 0,
                         target = snd ot\<rparr>)
                 (\<lambda>s.
               ebind (if fl_less (maxIou s) (Fin (positiveThreshold I))
                      then fallback I xSize ySize labelBox objectCount s
                      else Inr (target s))
                 (\<lambda>t. Inr (objectCount + 1, t))))))))"

definition createPillarsTarget :: "target_input \<Rightarrow> error + fl tensor" where
  "createPillarsTarget I =
     (let G = bounds I
      in ebind (floor_to_int (fdiv (xMax G - xMin G) (xStep G * of_int (downscalingFactor I))))
           (\<lambda>xSize.
         ebind (floor_to_int (fdiv (yMax G - yMin G) (yStep G * of_int (downscalingFactor I))))
           (\<lambda>ySize.
           (let nbAnchors = length (anchorDimensions I)
            in if nbAnchors = 0 then Inl (RuntimeError ''Anchor length is zero'')
               else
                 (let nbObjects = length (objectDimensions I)
                  in if nbObjects = 0 then Inl (RuntimeError ''Object length is zero'')
                     else
                       ebind (efold (parse_anchor I) (count_upto nbAnchors) []) (\<lambda>anchorBoxes.
                       ebind (efold (parse_label I) (count_upto nbObjects) []) (\<lambda>labelBoxes.
                       ebind (zeros [int nbObjects, xSize, ySize, int nbAnchors, 10] (Fin 0))
                         (\<lambda>tensor.
                       ebind (efold (encode_object I xSize ySize anchorBoxes
                                       (map diagonal anchorBoxes))
                                labelBoxes (0, tensor))
                         (\<lambda>ot. Inr (snd ot))))))))))"

section \<open>Properties\<close>

subsection \<open>What the two arrays of createPillars hold\<close>

text \<open>The writes that come after the nine features of a row stay in that row, in
  channels from 9 on.\<close>

definition extra_ok :: "('a PillarPoint_scheme \<Rightarrow> int \<Rightarrow> int \<Rightarrow> (int list \<times> real) list) \<Rightarrow> bool" where
  "extra_ok extra = (\<forall>p pid q i v. (i, v) \<in> set (extra p pid q) \<longrightarrow> (\<exists>c. 9 \<le> c \<and> i = [0, pid, q, c]))"

text \<open>The points of a cell after the offsets from the centroid are stored, and the two
  cell indices the loop computes from the centroid.\<close>

definition centred :: "'a PillarPoint_scheme list \<Rightarrow> 'a PillarPoint_scheme list" where
  "centred ps = map (centre (mean (map p_x ps)) (mean (map p_y ps)) (mean (map p_z ps))) ps"

definition cell_xIndex :: "grid \<Rightarrow> (nat \<times> nat) \<times> 'a PillarPoint_scheme list \<Rightarrow> error + int" where
  "cell_xIndex G cell = floor_to_int (fdiv (mean (map p_x (snd cell)) - xMin G) (xStep G))"

definition cell_yIndex :: "grid \<Rightarrow> (nat \<times> nat) \<times> 'a PillarPoint_scheme list \<Rightarrow> error + int" where
  "cell_yIndex G cell = floor_to_int (fdiv (mean (map p_y (snd cell)) - yMin G) (yStep G))"

text \<open>Every point of a cell was binned under the key of the cell, and a cell is never
  empty.\<close>

definition cell_ok :: "grid \<Rightarrow> (nat \<times> nat) \<times> 'a PillarPoint_scheme list \<Rightarrow> bool" where
  "cell_ok G cell =
     (snd cell \<noteq> [] \<and>
      (\<forall>p \<in> set (snd cell).
         floor_to_uint32 (fdiv (p_x p - xMin G) (xStep G)) = Inr (fst (fst cell)) \<and>
         floor_to_uint32 (fdiv (p_y p - yMin G) (yStep G)) = Inr (snd (fst cell))))"

text \<open>Row \<open>q\<close> of pillar \<open>p\<close> is filled: \<open>p\<close> is below \<open>maxPillars\<close> and the number of
  cells, \<open>q\<close> below \<open>maxPointsPerPillar\<close> and the number of points of the cell.\<close>

definition kept :: "int \<Rightarrow> int \<Rightarrow> ((nat \<times> nat) \<times> 'p list) list \<Rightarrow> int \<Rightarrow> int \<Rightarrow> bool" where
  "kept maxPillars maxPointsPerPillar cs p q =
     (0 \<le> p \<and> p < maxPillars \<and> nat p < length cs \<and>
      0 \<le> q \<and> q < maxPointsPerPillar \<and> nat q < length (snd (cs ! nat p)))"

text \<open>The capacities: outside the filled rows the feature array is zero, outside the
  filled pillars the index array is zero, and filled row \<open>q\<close> of pillar \<open>p\<close> holds
  point \<open>q\<close> of the vector of cell \<open>p\<close>, to which \<open>emplace_back\<close> appends.\<close>

definition capped :: "int \<Rightarrow> int \<Rightarrow> ((nat \<times> nat) \<times> 'a PillarPoint_scheme list) list
    \<Rightarrow> real tensor \<Rightarrow> int tensor \<Rightarrow> bool" where
  "capped maxPillars maxPointsPerPillar cs t ind =
     ((\<forall>idx. (\<nexists>p q c. idx = [0, p, q, c] \<and> kept maxPillars maxPointsPerPillar cs p q)
          \<longrightarrow> elems t idx = 0) \<and>
      (\<forall>idx. (\<nexists>p c. idx = [0, p, c] \<and> 0 \<le> p \<and> p < maxPillars \<and> nat p < length cs)
          \<longrightarrow> elems ind idx = 0) \<and>
      (\<forall>p q. kept maxPillars maxPointsPerPillar cs p q \<longrightarrow>
          elems t [0, p, q, 0] = p_x (snd (cs ! nat p) ! nat q) \<and>
          elems t [0, p, q, 1] = p_y (snd (cs ! nat p) ! nat q) \<and>
          elems t [0, p, q, 2] = p_z (snd (cs ! nat p) ! nat q) \<and>
          elems t [0, p, q, 3] = p_intensity (snd (cs ! nat p) ! nat q)))"

text \<open>Channels 7 and 8 of a filled row, from the key of the cell.\<close>

definition centre_offsets :: "grid \<Rightarrow> int \<Rightarrow> int \<Rightarrow> ((nat \<times> nat) \<times> 'a PillarPoint_scheme list) list
    \<Rightarrow> real tensor \<Rightarrow> bool" where
  "centre_offsets G maxPillars maxPointsPerPillar cs t =
     (\<forall>p q. kept maxPillars maxPointsPerPillar cs p q \<longrightarrow>
        elems t [0, p, q, 7] = p_x (snd (cs ! nat p) ! nat q)
            - (real (fst (fst (cs ! nat p))) * xStep G + xMin G) \<and>
        elems t [0, p, q, 8] = p_y (snd (cs ! nat p) ! nat q)
            - (real (snd (fst (cs ! nat p))) * yStep G + yMin G))"

text \<open>The value of one cell of a result, \<open>None\<close> when the call failed.\<close>

definition feature_value :: "error + real tensor \<times> int tensor \<Rightarrow> int list \<Rightarrow> real option" where
  "feature_value res idx = (case res of Inl e \<Rightarrow> None | Inr ti \<Rightarrow> Some (elems (fst ti) idx))"

definition cell_value :: "error + 'a tensor \<Rightarrow> int list \<Rightarrow> 'a option" where
  "cell_value res idx = (case res of Inl e \<Rightarrow> None | Inr t \<Rightarrow> Some (elems t idx))"

subsection \<open>Inputs of createPillars used below\<close>

definition G0 :: grid where
  "G0 = \<lparr>xStep = 1, yStep = 1, xMin = 0, xMax = 4, yMin = 0, yMax = 4, zMin = -1, zMax = 1\<rparr>"

definition P0 :: points_array where
  "P0 = \<lparr>shape = [4, 4],
         rows = [[1/2, 1/2, 0, 1/2], [1/4, 3/4, 0, 2], [3/4, 1/4, 0, 1/3], [5/2, 1/2, 0, 0]]\<rparr>"

definition M0 :: "PillarPoint cells" where
  "M0 = [((0, 0),
          [\<lparr>p_x = 1/2, p_y = 1/2, p_z = 0, p_intensity = 1/2, p_xc = 0, p_yc = 0, p_zc = 0\<rparr>,
           \<lparr>p_x = 1/4, p_y = 3/4, p_z = 0, p_intensity = 1, p_xc = 0, p_yc = 0, p_zc = 0\<rparr>,
           \<lparr>p_x = 3/4, p_y = 1/4, p_z = 0, p_intensity = 1/3, p_xc = 0, p_yc = 0, p_zc = 0\<rparr>]),
         ((2, 0),
          [\<lparr>p_x = 5/2, p_y = 1/2, p_z = 0, p_intensity = 0, p_xc = 0, p_yc = 0, p_zc = 0\<rparr>])]"

definition P5 :: points_array where
  "P5 = \<lparr>shape = [1, 5], rows = [[1/2, 1/2, 0, 1/2, 1]]\<rparr>"

definition P4 :: points_array where
  "P4 = \<lparr>shape = [1, 4], rows = [[1/2, 1/2, 0, 1/2]]\<rparr>"

definition P7 :: points_array where
  "P7 = \<lparr>shape = [1, 7], rows = [[1/2, 1/2, 0, 1/2, 1, 1, 1]]\<rparr>"

subsection \<open>What createPillarsTarget writes\<close>

text \<open>A property of every cell of an array, and the writes that the round for object
  number \<open>objectCount\<close> can make: a label 0 or -1 in channel 0, or one of the ten writes of
  a positive assignment.\<close>

definition holds :: "(int list \<Rightarrow> 'a \<Rightarrow> bool) \<Rightarrow> 'a tensor \<Rightarrow> bool" where
  "holds Q t = (\<forall>idx. Q idx (elems t idx))"

definition target_write :: "int \<Rightarrow> int list \<Rightarrow> fl \<Rightarrow> bool" where
  "target_write objectCount i v =
     ((\<exists>xId yId a. i = [objectCount, xId, yId, a, 0] \<and> (v = Fin 0 \<or> v = Fin (- 1))) \<or>
      (\<exists>xId yId a labelBox anchorBox ax ay diag.
         (i, v) \<in> set (positive_writes objectCount xId yId a labelBox anchorBox ax ay diag)))"

text \<open>Channel 8 holds zero.\<close>

definition flip_zero :: "int list \<Rightarrow> fl \<Rightarrow> bool" where
  "flip_zero i v = ((\<exists>objectCount xId yId a. i = [objectCount, xId, yId, a, 8]) \<longrightarrow> v = Fin 0)"



text \<open>The world coordinates of a cell, as the source computes them at lines 666, 670, 795
  and 796.\<close>

definition cell_x :: "target_input \<Rightarrow> int \<Rightarrow> real" where
  "cell_x I xId = of_int xId * xStep (bounds I) * of_int (downscalingFactor I) + xMin (bounds I)"

definition cell_y :: "target_input \<Rightarrow> int \<Rightarrow> real" where
  "cell_y I yId = of_int yId * yStep (bounds I) * of_int (downscalingFactor I) + yMin (bounds I)"

text \<open>No placement of an anchor at a cell of the window has an IOU above zero with the
  label: the comparison \<open>maxIou < iouOverlap\<close> of the search is never true.\<close>

definition no_overlap :: "target_input \<Rightarrow> BoundingBox3D list \<Rightarrow> BoundingBox3D \<Rightarrow> int list
    \<Rightarrow> int list \<Rightarrow> bool" where
  "no_overlap I anchorBoxes labelBox xIds yIds =
     (\<forall>xId \<in> set xIds. \<forall>yId \<in> set yIds. \<forall>a \<in> set anchorBoxes.
        \<not> fl_less (Fin 0)
            (iou (place_anchor (angle_threshold I) (cell_x I xId) (cell_y I yId) labelBox a)
               labelBox))"

subsection \<open>Inputs of createPillarsTarget used below\<close>

text \<open>A grid of 2 by 2 cells, one anchor of 4 by 3, and two objects of the size of the
  anchor: the first lies outside the grid, the second in cell (0, 0), nearer to the
  anchor placed at cell (1, 0). No placement reaches the positive threshold.\<close>

definition G1 :: grid where
  "G1 = \<lparr>xStep = 1, yStep = 1, xMin = 0, xMax = 2, yMin = 0, yMax = 2, zMin = -1, zMax = 1\<rparr>"

definition I1 :: target_input where
  "I1 = \<lparr>objectPositions = [[5, 1/2, 0], [3/4, 1/2, 0]],
          objectDimensions = [[4, 3, 1], [4, 3, 1]], objectYaws = [0, 0],
          objectClassIds = [2, 1], anchorDimensions = [[4, 3, 1]], anchorZHeights = [0],
          anchorYaws = [0], positiveThreshold = 9/10, negativeThreshold = 1/2,
          angle_threshold = 1/10, nbClasses = 2, downscalingFactor = 1, bounds = G1\<rparr>"

definition A1 :: BoundingBox3D where
  "A1 = \<lparr>box_x = 0, box_y = 0, box_z = 0, box_length = 4, box_width = 3, box_height = 1,
           box_yaw = 0, base_yaw = 0, classId = 0\<rparr>"

definition L1 :: BoundingBox3D where
  "L1 = \<lparr>box_x = 3/4, box_y = 1/2, box_z = 0, box_length = 4, box_width = 3, box_height = 1,
           box_yaw = 0, base_yaw = 0, classId = 1\<rparr>"

definition S1 :: "int \<Rightarrow> search" where
  "S1 n = \<lparr>maxIou = Fin (25/39), bestAnchor = A1\<lparr>box_x := 1, box_y := 0\<rparr>, bestAnchorId = 0,
      target = \<lparr>dims = [n, 2, 2, 1, 10],
         elems = (\<lambda>_. Fin 0)([0, 0, 0, 0, 0] := Fin (- 1), [0, 0, 1, 0, 0] := Fin (- 1),
                [0, 1, 0, 0, 0] := Fin (- 1), [0, 1, 1, 0, 0] := Fin (- 1))\<rparr>\<rparr>"


text \<open>One small object in cell (0, 0) and one anchor of its size: the anchor placed at the
  corner of the cell does not meet the object. The positive threshold is a parameter.\<close>

definition I3 :: "real \<Rightarrow> target_input" where
  "I3 pt = \<lparr>objectPositions = [[1/2, 1/2, 0]], objectDimensions = [[2/5, 3/10, 1]],
          objectYaws = [0], objectClassIds = [1], anchorDimensions = [[2/5, 3/10, 1]],
          anchorZHeights = [0], anchorYaws = [0], positiveThreshold = pt, negativeThreshold = 0,
          angle_threshold = 1/10, nbClasses = 1, downscalingFactor = 1, bounds = G1\<rparr>"

definition A3 :: BoundingBox3D where
  "A3 = \<lparr>box_x = 0, box_y = 0, box_z = 0, box_length = 2/5, box_width = 3/10, box_height = 1,
           box_yaw = 0, base_yaw = 0, classId = 0\<rparr>"

definition L3 :: BoundingBox3D where
  "L3 = \<lparr>box_x = 1/2, box_y = 1/2, box_z = 0, box_length = 2/5, box_width = 3/10, box_height = 1,
           box_yaw = 0, base_yaw = 0, classId = 1\<rparr>"

definition S3 :: search where
  "S3 = \<lparr>maxIou = Fin 0, bestAnchor = zero_box, bestAnchorId = 0,
      target = \<lparr>dims = [1, 2, 2, 1, 10],
         elems = (\<lambda>_. Fin 0)([0, 0, 0, 0, 0] := Fin (- 1))\<rparr>\<rparr>"

text \<open>A box of 2 by 2 and, inside it, a box whose length is negative: its corners come
  out in the opposite order.\<close>

definition boxA :: BoundingBox3D where
  "boxA = \<lparr>box_x = 0, box_y = 0, box_z = 0, box_length = 2, box_width = 2, box_height = 1,
            box_yaw = 0, base_yaw = 0, classId = 0\<rparr>"

definition boxB :: BoundingBox3D where
  "boxB = \<lparr>box_x = 0, box_y = 0, box_z = 0, box_length = - 1, box_width = 1, box_height = 1,
            box_yaw = 0, base_yaw = 0, classId = 0\<rparr>"

section \<open>Proofs\<close>

subsection \<open>Sequences of writes\<close>

lemma ebind_Inr: "ebind m f = Inr y \<longleftrightarrow> (\<exists>v. m = Inr v \<and> f v = Inr y)"
  by (cases m) (simp_all add: ebind_def)

lemma mutable_at_Inr:
  "mutable_at t idx v = Inr t' \<longleftrightarrow> in_range (dims t) idx \<and> t' = t\<lparr>elems := (elems t)(idx := v)\<rparr>"
  by (auto simp: mutable_at_def)

lemma write_all_dims: "write_all t ws = Inr t' \<Longrightarrow> dims t' = dims t"
  by (induction ws arbitrary: t) (auto simp: ebind_Inr mutable_at_Inr)

lemma write_all_in_range: "write_all t ws = Inr t' \<Longrightarrow> (i, v) \<in> set ws \<Longrightarrow> in_range (dims t) i"
proof (induction ws arbitrary: t)
  case Nil
  then show ?case by simp
next
  case (Cons w ws)
  obtain j u where w: "w = (j, u)" by (cases w)
  from Cons.prems(1) w obtain t1 where t1: "mutable_at t j u = Inr t1" "write_all t1 ws = Inr t'"
    by (auto simp: ebind_Inr)
  then have d: "dims t1 = dims t" and r: "in_range (dims t) j" by (auto simp: mutable_at_Inr)
  show ?case
  proof (cases "(i, v) = w")
    case True
    with w r show ?thesis by simp
  next
    case False
    with Cons.prems(2) have "(i, v) \<in> set ws" by simp
    from Cons.IH [OF t1(2) this] d show ?thesis by simp
  qed
qed

lemma write_all_frame:
  "write_all t ws = Inr t' \<Longrightarrow> idx \<notin> fst ` set ws \<Longrightarrow> elems t' idx = elems t idx"
proof (induction ws arbitrary: t)
  case Nil
  then show ?case by simp
next
  case (Cons w ws)
  obtain j u where w: "w = (j, u)" by (cases w)
  from Cons.prems(1) w obtain t1 where t1: "mutable_at t j u = Inr t1" "write_all t1 ws = Inr t'"
    by (auto simp: ebind_Inr)
  from Cons.prems(2) w have "idx \<noteq> j" "idx \<notin> fst ` set ws" by auto
  with Cons.IH [OF t1(2)] t1(1) show ?case by (auto simp: mutable_at_Inr)
qed

lemma write_all_value:
  "write_all t ws = Inr t' \<Longrightarrow> distinct (map fst ws) \<Longrightarrow> (idx, v) \<in> set ws \<Longrightarrow> elems t' idx = v"
proof (induction ws arbitrary: t)
  case Nil
  then show ?case by simp
next
  case (Cons w ws)
  obtain j u where w: "w = (j, u)" by (cases w)
  from Cons.prems(1) w obtain t1 where t1: "mutable_at t j u = Inr t1" "write_all t1 ws = Inr t'"
    by (auto simp: ebind_Inr)
  from Cons.prems(2) w have dj: "j \<notin> fst ` set ws" and dws: "distinct (map fst ws)" by auto
  show ?case
  proof (cases "(idx, v) \<in> set ws")
    case True
    from Cons.IH [OF t1(2) dws True] show ?thesis .
  next
    case False
    with Cons.prems(3) w have e: "idx = j" "v = u" by auto
    from write_all_frame [OF t1(2) dj] t1(1) e show ?thesis by (auto simp: mutable_at_Inr)
  qed
qed

lemma write_all_append:
  "write_all t (a @ b) = ebind (write_all t a) (\<lambda>t'. write_all t' b)"
  by (induction a arbitrary: t) (auto simp: ebind_def split: sum.splits)

lemma efold_invariant:
  assumes "efold f as s = Inr s'" and "P s" and "\<And>s a s'. f s a = Inr s' \<Longrightarrow> P s \<Longrightarrow> P s'"
  shows "P s'"
  using assms(1,2)
proof (induction as arbitrary: s)
  case Nil
  then show ?case by simp
next
  case (Cons a as)
  from Cons.prems(1) obtain s1 where s1: "f s a = Inr s1" "efold f as s1 = Inr s'"
    by (auto simp: ebind_Inr)
  from assms(3) [OF s1(1) Cons.prems(2)] have "P s1" .
  with Cons.IH [OF s1(2)] show ?case by simp
qed

subsection \<open>The loops of createPillars\<close>

lemma feature_writes_idx:
  "(i, v) \<in> set (feature_writes G pid q xI yI p) \<Longrightarrow> \<exists>c. 0 \<le> c \<and> c < 9 \<and> i = [0, pid, q, c]"
  by (auto simp: feature_writes_def)

lemma feature_writes_distinct: "distinct (map fst (feature_writes G pid q xI yI p))"
  by (simp add: feature_writes_def)

lemma row_write_frame:
  assumes "write_all t (feature_writes G pid q xI yI p @ extra p pid q) = Inr t'"
    and "extra_ok extra" and "\<nexists>c. idx = [0, pid, q, c]"
  shows "elems t' idx = elems t idx"
proof -
  have "idx \<notin> fst ` set (feature_writes G pid q xI yI p @ extra p pid q)"
  proof
    assume "idx \<in> fst ` set (feature_writes G pid q xI yI p @ extra p pid q)"
    then obtain v where "(idx, v) \<in> set (feature_writes G pid q xI yI p) \<or> (idx, v) \<in> set (extra p pid q)"
      by force
    then have "\<exists>c. idx = [0, pid, q, c]"
      using feature_writes_idx [of idx v G pid q xI yI p] assms(2) unfolding extra_ok_def by blast
    with assms(3) show False by simp
  qed
  from write_all_frame [OF assms(1) this] show ?thesis .
qed

lemma row_write_value:
  assumes "write_all t (feature_writes G pid q xI yI p @ extra p pid q) = Inr t'"
    and "extra_ok extra" and "(i, v) \<in> set (feature_writes G pid q xI yI p)"
  shows "elems t' i = v"
proof -
  from assms(1) obtain t1 where t1: "write_all t (feature_writes G pid q xI yI p) = Inr t1"
      "write_all t1 (extra p pid q) = Inr t'"
    by (auto simp: write_all_append ebind_Inr)
  from write_all_value [OF t1(1) feature_writes_distinct assms(3)] have a: "elems t1 i = v" .
  from feature_writes_idx [OF assms(3)] obtain c where c: "c < 9" "i = [0, pid, q, c]" by blast
  have "i \<notin> fst ` set (extra p pid q)"
  proof
    assume "i \<in> fst ` set (extra p pid q)"
    then obtain u where "(i, u) \<in> set (extra p pid q)" by auto
    with assms(2) obtain c' where "9 \<le> c'" "i = [0, pid, q, c']" unfolding extra_ok_def by blast
    with c show False by simp
  qed
  from write_all_frame [OF t1(2) this] a show ?thesis by simp
qed

lemma emit_points_dims:
  "emit_points G extra MPP pid xI yI t q ps = Inr t' \<Longrightarrow> dims t' = dims t"
proof (induction ps arbitrary: t q)
  case Nil
  then show ?case by simp
next
  case (Cons p ps)
  show ?case
  proof (cases "q \<ge> MPP")
    case True
    with Cons.prems show ?thesis by simp
  next
    case False
    with Cons.prems obtain t1 where
      t1: "write_all t (feature_writes G pid q xI yI p @ extra p pid q) = Inr t1"
        "emit_points G extra MPP pid xI yI t1 (q + 1) ps = Inr t'"
      by (auto simp: ebind_Inr)
    from Cons.IH [OF t1(2)] write_all_dims [OF t1(1)] show ?thesis by simp
  qed
qed

lemma emit_points_frame:
  assumes "emit_points G extra MPP pid xI yI t q ps = Inr t'" and "extra_ok extra"
    and "\<nexists>q' c. idx = [0, pid, q', c] \<and> q \<le> q' \<and> q' < MPP \<and> q' < q + int (length ps)"
  shows "elems t' idx = elems t idx"
  using assms(1,3)
proof (induction ps arbitrary: t q)
  case Nil
  then show ?case by simp
next
  case (Cons p ps)
  show ?case
  proof (cases "q \<ge> MPP")
    case True
    with Cons.prems show ?thesis by simp
  next
    case False
    with Cons.prems(1) obtain t1 where
      t1: "write_all t (feature_writes G pid q xI yI p @ extra p pid q) = Inr t1"
        "emit_points G extra MPP pid xI yI t1 (q + 1) ps = Inr t'"
      by (auto simp: ebind_Inr)
    have a: "\<nexists>c. idx = [0, pid, q, c]"
    proof
      assume "\<exists>c. idx = [0, pid, q, c]"
      then obtain c where "idx = [0, pid, q, c]" by blast
      with False have "idx = [0, pid, q, c] \<and> q \<le> q \<and> q < MPP \<and> q < q + int (length (p # ps))"
        by simp
      with Cons.prems(2) show False by blast
    qed
    from Cons.prems(2) have b: "\<nexists>q' c. idx = [0, pid, q', c] \<and> q + 1 \<le> q' \<and> q' < MPP \<and> q' < q + 1 + int (length ps)"
      by auto
    from Cons.IH [OF t1(2) b] row_write_frame [OF t1(1) assms(2) a] show ?thesis by simp
  qed
qed

lemma emit_points_value:
  assumes "emit_points G extra MPP pid xI yI t q ps = Inr t'" and "extra_ok extra"
    and "j < length ps" and "q + int j < MPP"
    and "(i, v) \<in> set (feature_writes G pid (q + int j) xI yI (ps ! j))"
  shows "elems t' i = v"
  using assms(1,3,4,5)
proof (induction ps arbitrary: t q j)
  case Nil
  then show ?case by simp
next
  case (Cons p ps)
  from Cons.prems(3) have lt: "\<not> q \<ge> MPP" by simp
  with Cons.prems(1) obtain t1 where
    t1: "write_all t (feature_writes G pid q xI yI p @ extra p pid q) = Inr t1"
      "emit_points G extra MPP pid xI yI t1 (q + 1) ps = Inr t'"
    by (auto simp: ebind_Inr)
  show ?case
  proof (cases j)
    case 0
    with Cons.prems(4) have m: "(i, v) \<in> set (feature_writes G pid q xI yI p)" by simp
    from feature_writes_idx [OF m] obtain c where c: "i = [0, pid, q, c]" by blast
    then have "\<nexists>q' c. i = [0, pid, q', c] \<and> q + 1 \<le> q' \<and> q' < MPP \<and> q' < q + 1 + int (length ps)"
      by auto
    from emit_points_frame [OF t1(2) assms(2) this] row_write_value [OF t1(1) assms(2) m]
    show ?thesis by simp
  next
    case (Suc k)
    with Cons.prems have k: "k < length ps" "q + 1 + int k < MPP"
      "(i, v) \<in> set (feature_writes G pid (q + 1 + int k) xI yI (ps ! k))"
      by (simp_all add: algebra_simps)
    from Cons.IH [OF t1(2) k] show ?thesis .
  qed
qed

lemma emit_pillar_Inr:
  assumes "emit_pillar G extra MPP ti pid cell = Inr ti'"
  obtains xI yI where "cell_xIndex G cell = Inr xI" and "cell_yIndex G cell = Inr yI"
    and "write_all (snd ti) [([0, pid, 1], xI), ([0, pid, 2], yI)] = Inr (snd ti')"
    and "emit_points G extra MPP pid xI yI (fst ti) 0 (centred (snd cell)) = Inr (fst ti')"
  using assms unfolding emit_pillar_def cell_xIndex_def cell_yIndex_def centred_def Let_def ebind_Inr
  by auto

lemma emit_pillars_frame:
  assumes "emit_pillars G extra MPP MP ti pid cs = Inr ti'" and "extra_ok extra"
    and "\<nexists>j q c. idx = [0, pid + int j, q, c] \<and> j < length cs \<and> pid + int j < MP
            \<and> 0 \<le> q \<and> q < MPP \<and> q < int (length (snd (cs ! j)))"
  shows "elems (fst ti') idx = elems (fst ti) idx"
  using assms(1,3)
proof (induction cs arbitrary: ti pid)
  case Nil
  then show ?case by simp
next
  case (Cons cell cs)
  show ?case
  proof (cases "pid \<ge> MP")
    case True
    with Cons.prems show ?thesis by simp
  next
    case False
    with Cons.prems(1) obtain t1 where
      t1: "emit_pillar G extra MPP ti pid cell = Inr t1"
        "emit_pillars G extra MPP MP t1 (pid + 1) cs = Inr ti'"
      by (auto simp: ebind_Inr)
    from emit_pillar_Inr [OF t1(1)] obtain xI yI where
      e: "emit_points G extra MPP pid xI yI (fst ti) 0 (centred (snd cell)) = Inr (fst t1)"
      by blast
    have a: "\<nexists>q' c. idx = [0, pid, q', c] \<and> 0 \<le> q' \<and> q' < MPP \<and> q' < 0 + int (length (centred (snd cell)))"
    proof
      assume "\<exists>q' c. idx = [0, pid, q', c] \<and> 0 \<le> q' \<and> q' < MPP \<and> q' < 0 + int (length (centred (snd cell)))"
      then obtain q' c where "idx = [0, pid, q', c]" "0 \<le> q'" "q' < MPP" "q' < int (length (snd cell))"
        by (auto simp: centred_def)
      with False have "idx = [0, pid + int 0, q', c] \<and> 0 < length (cell # cs) \<and> pid + int 0 < MP
            \<and> 0 \<le> q' \<and> q' < MPP \<and> q' < int (length (snd ((cell # cs) ! 0)))"
        by simp
      with Cons.prems(2) show False by blast
    qed
    have b: "\<nexists>j q c. idx = [0, pid + 1 + int j, q, c] \<and> j < length cs \<and> pid + 1 + int j < MP
            \<and> 0 \<le> q \<and> q < MPP \<and> q < int (length (snd (cs ! j)))"
    proof
      assume "\<exists>j q c. idx = [0, pid + 1 + int j, q, c] \<and> j < length cs \<and> pid + 1 + int j < MP
            \<and> 0 \<le> q \<and> q < MPP \<and> q < int (length (snd (cs ! j)))"
      then obtain j q c where "idx = [0, pid + 1 + int j, q, c]" "j < length cs" "pid + 1 + int j < MP"
         "0 \<le> q" "q < MPP" "q < int (length (snd (cs ! j)))" by blast
      then have "idx = [0, pid + int (Suc j), q, c] \<and> Suc j < length (cell # cs) \<and> pid + int (Suc j) < MP
            \<and> 0 \<le> q \<and> q < MPP \<and> q < int (length (snd ((cell # cs) ! Suc j)))"
        by (simp add: algebra_simps)
      with Cons.prems(2) show False by blast
    qed
    from Cons.IH [OF t1(2) b] emit_points_frame [OF e assms(2) a] show ?thesis by simp
  qed
qed

lemma emit_pillars_value:
  assumes "emit_pillars G extra MPP MP ti pid cs = Inr ti'" and "extra_ok extra"
    and "j < length cs" and "pid + int j < MP" and "k < length (snd (cs ! j))" and "int k < MPP"
  shows "\<exists>xI yI. cell_xIndex G (cs ! j) = Inr xI \<and> cell_yIndex G (cs ! j) = Inr yI \<and>
     (\<forall>i v. (i, v) \<in> set (feature_writes G (pid + int j) (int k) xI yI (centred (snd (cs ! j)) ! k))
        \<longrightarrow> elems (fst ti') i = v)"
  using assms(1,3,4,5)
proof (induction cs arbitrary: ti pid j)
  case Nil
  then show ?case by simp
next
  case (Cons cell cs)
  from Cons.prems(3) have "\<not> pid \<ge> MP" by simp
  with Cons.prems(1) obtain t1 where
    t1: "emit_pillar G extra MPP ti pid cell = Inr t1"
      "emit_pillars G extra MPP MP t1 (pid + 1) cs = Inr ti'"
    by (auto simp: ebind_Inr)
  show ?case
  proof (cases j)
    case 0
    from emit_pillar_Inr [OF t1(1)] obtain xI yI where
      xy: "cell_xIndex G cell = Inr xI" "cell_yIndex G cell = Inr yI" and
      e: "emit_points G extra MPP pid xI yI (fst ti) 0 (centred (snd cell)) = Inr (fst t1)"
      by blast
    from Cons.prems(4) 0 have k: "k < length (centred (snd cell))" by (simp add: centred_def)
    have "elems (fst ti') i = v"
      if m: "(i, v) \<in> set (feature_writes G pid (int k) xI yI (centred (snd cell) ! k))" for i v
    proof -
      from m have m': "(i, v) \<in> set (feature_writes G pid (0 + int k) xI yI (centred (snd cell) ! k))"
        by simp
      from assms(6) have k': "0 + int k < MPP" by simp
      from emit_points_value [OF e assms(2) k k' m'] have a: "elems (fst t1) i = v" .
      from feature_writes_idx [OF m] obtain c where c: "i = [0, pid, int k, c]" by blast
      then have "\<nexists>j q c. i = [0, pid + 1 + int j, q, c] \<and> j < length cs \<and> pid + 1 + int j < MP
            \<and> 0 \<le> q \<and> q < MPP \<and> q < int (length (snd (cs ! j)))"
        by auto
      from emit_pillars_frame [OF t1(2) assms(2) this] a show ?thesis by simp
    qed
    with xy 0 show ?thesis by auto
  next
    case (Suc n)
    with Cons.prems have n: "n < length cs" "pid + 1 + int n < MP" "k < length (snd (cs ! n))"
      by (simp_all add: algebra_simps)
    from Cons.IH [OF t1(2) n] Suc show ?thesis by (simp add: algebra_simps)
  qed
qed

lemma emit_pillars_dims:
  "emit_pillars G extra MPP MP ti pid cs = Inr ti' \<Longrightarrow>
     dims (fst ti') = dims (fst ti) \<and> dims (snd ti') = dims (snd ti)"
proof (induction cs arbitrary: ti pid)
  case Nil
  then show ?case by simp
next
  case (Cons cell cs)
  show ?case
  proof (cases "pid \<ge> MP")
    case True
    with Cons.prems show ?thesis by simp
  next
    case False
    with Cons.prems(1) obtain t1 where
      t1: "emit_pillar G extra MPP ti pid cell = Inr t1"
        "emit_pillars G extra MPP MP t1 (pid + 1) cs = Inr ti'"
      by (auto simp: ebind_Inr)
    from emit_pillar_Inr [OF t1(1)] obtain xI yI where
      "write_all (snd ti) [([0, pid, 1], xI), ([0, pid, 2], yI)] = Inr (snd t1)"
      "emit_points G extra MPP pid xI yI (fst ti) 0 (centred (snd cell)) = Inr (fst t1)"
      by blast
    then have "dims (fst t1) = dims (fst ti)" "dims (snd t1) = dims (snd ti)"
      using emit_points_dims write_all_dims by blast+
    with Cons.IH [OF t1(2)] show ?thesis by simp
  qed
qed

lemma emit_pillars_indices_frame:
  assumes "emit_pillars G extra MPP MP ti pid cs = Inr ti'"
    and "\<nexists>j c. idx = [0, pid + int j, c] \<and> j < length cs \<and> pid + int j < MP"
  shows "elems (snd ti') idx = elems (snd ti) idx"
  using assms
proof (induction cs arbitrary: ti pid)
  case Nil
  then show ?case by simp
next
  case (Cons cell cs)
  show ?case
  proof (cases "pid \<ge> MP")
    case True
    with Cons.prems show ?thesis by simp
  next
    case False
    with Cons.prems(1) obtain t1 where
      t1: "emit_pillar G extra MPP ti pid cell = Inr t1"
        "emit_pillars G extra MPP MP t1 (pid + 1) cs = Inr ti'"
      by (auto simp: ebind_Inr)
    from emit_pillar_Inr [OF t1(1)] obtain xI yI where
      w: "write_all (snd ti) [([0, pid, 1], xI), ([0, pid, 2], yI)] = Inr (snd t1)"
      by blast
    have "\<nexists>c. idx = [0, pid, c]"
    proof
      assume "\<exists>c. idx = [0, pid, c]"
      then obtain c where "idx = [0, pid, c]" by blast
      with False have "idx = [0, pid + int 0, c] \<and> 0 < length (cell # cs) \<and> pid + int 0 < MP"
        by simp
      with Cons.prems(2) show False by blast
    qed
    then have "idx \<notin> fst ` set [([0, pid, 1], xI), ([0, pid, 2], yI)]" by auto
    from write_all_frame [OF w this] have a: "elems (snd t1) idx = elems (snd ti) idx" .
    have b: "\<nexists>j c. idx = [0, pid + 1 + int j, c] \<and> j < length cs \<and> pid + 1 + int j < MP"
    proof
      assume "\<exists>j c. idx = [0, pid + 1 + int j, c] \<and> j < length cs \<and> pid + 1 + int j < MP"
      then obtain j c where "idx = [0, pid + 1 + int j, c]" "j < length cs" "pid + 1 + int j < MP"
        by blast
      then have "idx = [0, pid + int (Suc j), c] \<and> Suc j < length (cell # cs) \<and> pid + int (Suc j) < MP"
        by (simp add: algebra_simps)
      with Cons.prems(2) show False by blast
    qed
    from Cons.IH [OF t1(2) b] a show ?thesis by simp
  qed
qed

lemma extra_ok_no_colour: "extra_ok no_colour"
  by (simp add: extra_ok_def no_colour_def)

lemma extra_ok_colour_writes: "extra_ok colour_writes"
  by (auto simp: extra_ok_def colour_writes_def)

lemma encode_cells_Inr:
  assumes "encode_cells G extra nfeat MPP MP cs = Inr ti"
  shows "emit_pillars G extra MPP MP
           (\<lparr>dims = [1, MP, MPP, nfeat], elems = (\<lambda>_. 0)\<rparr>, \<lparr>dims = [1, MP, 3], elems = (\<lambda>_. 0)\<rparr>) 0 cs
         = Inr ti"
  using assms by (auto simp: encode_cells_def zeros_def ebind_Inr split: if_splits)

lemma centred_nth:
  "k < length ps \<Longrightarrow> p_x (centred ps ! k) = p_x (ps ! k) \<and> p_y (centred ps ! k) = p_y (ps ! k)
     \<and> p_z (centred ps ! k) = p_z (ps ! k) \<and> p_intensity (centred ps ! k) = p_intensity (ps ! k)"
  by (simp add: centred_def centre_def)

lemma encode_cells_capped:
  assumes "encode_cells G extra nfeat MPP MP cs = Inr (t, ind)" and "extra_ok extra"
  shows "capped MP MPP cs t ind"
proof -
  note e = encode_cells_Inr [OF assms(1)]
  have a: "elems t idx = 0" if n: "\<nexists>p q c. idx = [0, p, q, c] \<and> kept MP MPP cs p q" for idx
  proof -
    have "\<nexists>j q c. idx = [0, 0 + int j, q, c] \<and> j < length cs \<and> 0 + int j < MP
            \<and> 0 \<le> q \<and> q < MPP \<and> q < int (length (snd (cs ! j)))"
    proof
      assume "\<exists>j q c. idx = [0, 0 + int j, q, c] \<and> j < length cs \<and> 0 + int j < MP
            \<and> 0 \<le> q \<and> q < MPP \<and> q < int (length (snd (cs ! j)))"
      then obtain j q c where "idx = [0, int j, q, c]" "j < length cs" "int j < MP"
        "0 \<le> q" "q < MPP" "q < int (length (snd (cs ! j)))" by auto
      then have "idx = [0, int j, q, c] \<and> kept MP MPP cs (int j) q" by (simp add: kept_def)
      with n show False by blast
    qed
    from emit_pillars_frame [OF e assms(2) this] show ?thesis by simp
  qed
  have b: "elems ind idx = 0"
    if n: "\<nexists>p c. idx = [0, p, c] \<and> 0 \<le> p \<and> p < MP \<and> nat p < length cs" for idx
  proof -
    have "\<nexists>j c. idx = [0, 0 + int j, c] \<and> j < length cs \<and> 0 + int j < MP"
    proof
      assume "\<exists>j c. idx = [0, 0 + int j, c] \<and> j < length cs \<and> 0 + int j < MP"
      then obtain j c where "idx = [0, int j, c]" "j < length cs" "int j < MP" by auto
      then have "idx = [0, int j, c] \<and> 0 \<le> int j \<and> int j < MP \<and> nat (int j) < length cs" by simp
      with n show False by blast
    qed
    from emit_pillars_indices_frame [OF e this] show ?thesis by simp
  qed
  have c: "elems t [0, p, q, 0] = p_x (snd (cs ! nat p) ! nat q) \<and>
          elems t [0, p, q, 1] = p_y (snd (cs ! nat p) ! nat q) \<and>
          elems t [0, p, q, 2] = p_z (snd (cs ! nat p) ! nat q) \<and>
          elems t [0, p, q, 3] = p_intensity (snd (cs ! nat p) ! nat q)"
    if k: "kept MP MPP cs p q" for p q
  proof -
    from k have h: "nat p < length cs" "0 + int (nat p) < MP" "nat q < length (snd (cs ! nat p))"
      "int (nat q) < MPP" and pq: "int (nat p) = p" "int (nat q) = q"
      by (simp_all add: kept_def)
    from emit_pillars_value [OF e assms(2) h] pq obtain xI yI where
      v: "\<And>i v. (i, v) \<in> set (feature_writes G p q xI yI (centred (snd (cs ! nat p)) ! nat q))
        \<Longrightarrow> elems t i = v"
      by auto
    note n = centred_nth [OF h(3)]
    have "elems t [0, p, q, 0] = p_x (snd (cs ! nat p) ! nat q)"
      using v [of "[0, p, q, 0]" "p_x (centred (snd (cs ! nat p)) ! nat q)"] n
      by (simp add: feature_writes_def)
    moreover have "elems t [0, p, q, 1] = p_y (snd (cs ! nat p) ! nat q)"
      using v [of "[0, p, q, 1]" "p_y (centred (snd (cs ! nat p)) ! nat q)"] n
      by (simp add: feature_writes_def)
    moreover have "elems t [0, p, q, 2] = p_z (snd (cs ! nat p) ! nat q)"
      using v [of "[0, p, q, 2]" "p_z (centred (snd (cs ! nat p)) ! nat q)"] n
      by (simp add: feature_writes_def)
    moreover have "elems t [0, p, q, 3] = p_intensity (snd (cs ! nat p) ! nat q)"
      using v [of "[0, p, q, 3]" "p_intensity (centred (snd (cs ! nat p)) ! nat q)"] n
      by (simp add: feature_writes_def)
    ultimately show ?thesis by simp
  qed
  from a b c show ?thesis unfolding capped_def by blast
qed

subsection \<open>The cell of the centroid\<close>

lemma emplace_back_ok:
  assumes "\<forall>c \<in> set m. cell_ok G c"
    and "floor_to_uint32 (fdiv (p_x p - xMin G) (xStep G)) = Inr (fst k)"
    and "floor_to_uint32 (fdiv (p_y p - yMin G) (yStep G)) = Inr (snd k)"
  shows "\<forall>c \<in> set (emplace_back m k p). cell_ok G c"
  using assms(1)
proof (induction m)
  case Nil
  with assms(2,3) show ?case by (simp add: cell_ok_def)
next
  case (Cons c m)
  obtain k' ps where c: "c = (k', ps)" by (cases c)
  show ?case
  proof (cases "k' = k")
    case True
    from Cons.prems c have "cell_ok G (k', ps)" by simp
    with True assms(2,3) have "cell_ok G (k', ps @ [p])" by (auto simp: cell_ok_def)
    with Cons.prems c True show ?thesis by simp
  next
    case False
    with Cons c show ?thesis by simp
  qed
qed

lemma bin_point_ok:
  assumes "bin_point G md points m i = Inr m'" and "\<forall>c \<in> set m. cell_ok G c"
  shows "\<forall>c \<in> set m'. cell_ok G c"
proof (cases "m' = m")
  case True
  with assms(2) show ?thesis by simp
next
  case False
  with assms(1) obtain xI yI px py pz pin where
    f: "floor_to_uint32 (fdiv (px - xMin G) (xStep G)) = Inr xI"
      "floor_to_uint32 (fdiv (py - yMin G) (yStep G)) = Inr yI"
    and m': "m' = emplace_back m (xI, yI) \<lparr>p_x = px, p_y = py, p_z = pz,
        p_intensity = clamp pin 0 1, p_xc = 0, p_yc = 0, p_zc = 0\<rparr>"
    by (auto simp: bin_point_def ebind_Inr split: if_splits)
  show ?thesis unfolding m' by (rule emplace_back_ok [OF assms(2)]) (simp_all add: f)
qed

lemma bin_point_rgb_ok:
  assumes "bin_point_rgb G points m i = Inr m'" and "\<forall>c \<in> set m. cell_ok G c"
  shows "\<forall>c \<in> set m'. cell_ok G c"
proof (cases "m' = m")
  case True
  with assms(2) show ?thesis by simp
next
  case False
  with assms(1) obtain xI yI px py pz pin pr pg pb where
    f: "floor_to_uint32 (fdiv (px - xMin G) (xStep G)) = Inr xI"
      "floor_to_uint32 (fdiv (py - yMin G) (yStep G)) = Inr yI"
    and m': "m' = emplace_back m (xI, yI) \<lparr>p_x = px, p_y = py, p_z = pz,
        p_intensity = clamp pin 0 1, p_xc = 0, p_yc = 0, p_zc = 0, p_r = pr, p_g = pg, p_b = pb\<rparr>"
    by (auto simp: bin_point_rgb_def ebind_Inr split: if_splits)
  show ?thesis unfolding m' by (rule emplace_back_ok [OF assms(2)]) (simp_all add: f)
qed

lemma sum_list_lower: "\<forall>v \<in> set vs. a \<le> v \<Longrightarrow> a * real (length vs) \<le> sum_list vs"
  by (induction vs) (auto simp: algebra_simps)

lemma sum_list_upper: "vs \<noteq> [] \<Longrightarrow> \<forall>v \<in> set vs. v < b \<Longrightarrow> sum_list vs < b * real (length vs)"
proof (induction vs)
  case Nil
  then show ?case by simp
next
  case (Cons v vs)
  show ?case
  proof (cases "vs = []")
    case True
    with Cons.prems show ?thesis by simp
  next
    case False
    with Cons have "sum_list vs < b * real (length vs)" "v < b" by simp_all
    then show ?thesis by (simp add: algebra_simps)
  qed
qed

lemma mean_bounds:
  assumes "vs \<noteq> []" and "\<forall>v \<in> set vs. a \<le> v \<and> v < b"
  shows "a \<le> mean vs \<and> mean vs < b"
proof -
  from assms(1) have n: "0 < real (length vs)" by simp
  from assms(2) have "a * real (length vs) \<le> sum_list vs" by (intro sum_list_lower) simp
  moreover from assms have "sum_list vs < b * real (length vs)" by (intro sum_list_upper) simp_all
  ultimately show ?thesis using n unfolding mean_def by (simp add: field_simps)
qed

lemma mean_affine:
  assumes "vs \<noteq> []"
  shows "(mean vs - c) / s = mean (map (\<lambda>v. (v - c) / s) vs)"
proof -
  have "sum_list (map (\<lambda>v. (v - c) / s) vs) = (sum_list vs - real (length vs) * c) / s"
    by (induction vs) (simp_all add: add_divide_distrib [symmetric] algebra_simps)
  moreover from assms have "real (length vs) \<noteq> 0" by simp
  ultimately show ?thesis unfolding mean_def by (simp add: field_simps)
qed

lemma floor_to_uint32_Inr:
  "floor_to_uint32 (fdiv a s) = Inr k \<Longrightarrow> s \<noteq> 0 \<and> \<lfloor>a / s\<rfloor> = int k"
  by (auto simp: fdiv_def split: if_splits)

lemma floor_to_int_Inr:
  "floor_to_int (fdiv a s) = Inr k \<Longrightarrow> s \<noteq> 0 \<and> \<lfloor>a / s\<rfloor> = k"
  by (auto simp: fdiv_def split: if_splits)

lemma mean_index:
  assumes "vs \<noteq> []" and "\<forall>v \<in> set vs. floor_to_uint32 (fdiv (v - c) s) = Inr k"
    and "floor_to_int (fdiv (mean vs - c) s) = Inr xI"
  shows "xI = int k"
proof -
  have "\<forall>u \<in> set (map (\<lambda>v. (v - c) / s) vs). real_of_int (int k) \<le> u \<and> u < real_of_int (int k) + 1"
  proof
    fix u assume "u \<in> set (map (\<lambda>v. (v - c) / s) vs)"
    then obtain v where v: "v \<in> set vs" "u = (v - c) / s" by auto
    with assms(2) have "\<lfloor>u\<rfloor> = int k" using floor_to_uint32_Inr by blast
    then show "real_of_int (int k) \<le> u \<and> u < real_of_int (int k) + 1" by linarith
  qed
  with assms(1) have "real_of_int (int k) \<le> mean (map (\<lambda>v. (v - c) / s) vs)
      \<and> mean (map (\<lambda>v. (v - c) / s) vs) < real_of_int (int k) + 1"
    by (intro mean_bounds) simp_all
  then have "\<lfloor>(mean vs - c) / s\<rfloor> = int k"
    unfolding mean_affine [OF assms(1), symmetric] by linarith
  with floor_to_int_Inr [OF assms(3)] show ?thesis by simp
qed

lemma cell_ok_xIndex:
  assumes "cell_ok G cell" and "cell_xIndex G cell = Inr xI"
  shows "xI = int (fst (fst cell))"
proof (rule mean_index)
  from assms(1) show "map p_x (snd cell) \<noteq> []" by (simp add: cell_ok_def)
  from assms(1) show "\<forall>v \<in> set (map p_x (snd cell)).
      floor_to_uint32 (fdiv (v - xMin G) (xStep G)) = Inr (fst (fst cell))"
    by (auto simp: cell_ok_def)
  from assms(2) show "floor_to_int (fdiv (mean (map p_x (snd cell)) - xMin G) (xStep G)) = Inr xI"
    by (simp add: cell_xIndex_def)
qed

lemma cell_ok_yIndex:
  assumes "cell_ok G cell" and "cell_yIndex G cell = Inr yI"
  shows "yI = int (snd (fst cell))"
proof (rule mean_index)
  from assms(1) show "map p_y (snd cell) \<noteq> []" by (simp add: cell_ok_def)
  from assms(1) show "\<forall>v \<in> set (map p_y (snd cell)).
      floor_to_uint32 (fdiv (v - yMin G) (yStep G)) = Inr (snd (fst cell))"
    by (auto simp: cell_ok_def)
  from assms(2) show "floor_to_int (fdiv (mean (map p_y (snd cell)) - yMin G) (yStep G)) = Inr yI"
    by (simp add: cell_yIndex_def)
qed

lemma encode_cells_centre_offsets:
  assumes "encode_cells G extra nfeat MPP MP cs = Inr (t, ind)" and "extra_ok extra"
    and "\<forall>c \<in> set cs. cell_ok G c"
  shows "centre_offsets G MP MPP cs t"
  unfolding centre_offsets_def
proof (intro allI impI)
  fix p q
  assume k: "kept MP MPP cs p q"
  note e = encode_cells_Inr [OF assms(1)]
  from k have h: "nat p < length cs" "0 + int (nat p) < MP" "nat q < length (snd (cs ! nat p))"
    "int (nat q) < MPP" and pq: "int (nat p) = p" "int (nat q) = q"
    by (simp_all add: kept_def)
  from emit_pillars_value [OF e assms(2) h] pq obtain xI yI where
    xy: "cell_xIndex G (cs ! nat p) = Inr xI" "cell_yIndex G (cs ! nat p) = Inr yI" and
    v: "\<And>i v. (i, v) \<in> set (feature_writes G p q xI yI (centred (snd (cs ! nat p)) ! nat q))
      \<Longrightarrow> elems t i = v"
    by auto
  from assms(3) h(1) have ok: "cell_ok G (cs ! nat p)" by simp
  note ix = cell_ok_xIndex [OF ok xy(1)] cell_ok_yIndex [OF ok xy(2)]
  note n = centred_nth [OF h(3)]
  have "elems t [0, p, q, 7] = p_x (snd (cs ! nat p) ! nat q)
            - (real (fst (fst (cs ! nat p))) * xStep G + xMin G)"
    using v [of "[0, p, q, 7]" "p_x (centred (snd (cs ! nat p)) ! nat q) - (of_int xI * xStep G + xMin G)"] n ix
    by (simp add: feature_writes_def)
  moreover have "elems t [0, p, q, 8] = p_y (snd (cs ! nat p) ! nat q)
            - (real (snd (fst (cs ! nat p))) * yStep G + yMin G)"
    using v [of "[0, p, q, 8]" "p_y (centred (snd (cs ! nat p)) ! nat q) - (of_int yI * yStep G + yMin G)"] n ix
    by (simp add: feature_writes_def)
  ultimately show "elems t [0, p, q, 7] = p_x (snd (cs ! nat p) ! nat q)
            - (real (fst (fst (cs ! nat p))) * xStep G + xMin G) \<and>
        elems t [0, p, q, 8] = p_y (snd (cs ! nat p) ! nat q)
            - (real (snd (fst (cs ! nat p))) * yStep G + yMin G)" by simp
qed

lemma createPillars_Inr:
  assumes "createPillars iter iter_rgb points MPP MP G md = Inr ti"
  shows "(shape points ! 1 = 4 \<and>
           (\<exists>m. efold (bin_point G md points) (row_ids points) [] = Inr m \<and>
                encode_cells G no_colour 9 MPP MP (iter m) = Inr ti)) \<or>
         (shape points ! 1 = 7 \<and>
           (\<exists>m. efold (bin_point_rgb G points) (row_ids points) [] = Inr m \<and>
                encode_cells G colour_writes 12 MPP MP (iter_rgb m) = Inr ti))"
  using assms by (auto simp: createPillars_def ebind_Inr split: if_splits)

text \<open>\<open>emplace_back\<close> keeps the keys distinct and appends to the vector of the key: the
  vector of a cell lists its points in the order of their insertion.\<close>

lemma emplace_back_keys: "fst ` set (emplace_back m k p) = insert k (fst ` set m)"
proof (induction m)
  case Nil
  show ?case by simp
next
  case (Cons c m)
  obtain k' ps where c: "c = (k', ps)" by (cases c)
  show ?case
  proof (cases "k' = k")
    case True
    with c show ?thesis by simp
  next
    case False
    with c Cons show ?thesis by (simp add: insert_commute)
  qed
qed

lemma emplace_back_distinct: "distinct (map fst m) \<Longrightarrow> distinct (map fst (emplace_back m k p))"
proof (induction m)
  case Nil
  show ?case by simp
next
  case (Cons c m)
  obtain k' ps where c: "c = (k', ps)" by (cases c)
  show ?case
  proof (cases "k' = k")
    case True
    with c Cons.prems show ?thesis by simp
  next
    case False
    from Cons.prems c have "k' \<notin> fst ` set m" "distinct (map fst m)" by simp_all
    with False Cons.IH c show ?thesis by (simp add: emplace_back_keys)
  qed
qed

lemma emplace_back_lookup:
  "map_of (emplace_back m k p) k' =
     (if k' = k then Some ((case map_of m k of None \<Rightarrow> [] | Some ps \<Rightarrow> ps) @ [p])
      else map_of m k')"
proof (induction m)
  case Nil
  show ?case by simp
next
  case (Cons c m)
  obtain k'' ps where c: "c = (k'', ps)" by (cases c)
  show ?case
  proof (cases "k'' = k")
    case True
    with c show ?thesis by simp
  next
    case False
    with c Cons show ?thesis by auto
  qed
qed

subsection \<open>Evaluation of createPillars\<close>

lemmas eval_defs = createPillars_def ndim_def row_ids_def bin_point_def bin_point_rgb_def at2_def
  ebind_def out_of_bounds_def too_close_def fdiv_def clamp_def Let_def encode_cells_def zeros_def
  emit_pillar_def mean_def centre_def feature_writes_def colour_writes_def no_colour_def
  mutable_at_def in_range_def int_range_def

lemma row_ids_P0: "row_ids P0 = [0, 1, 2, 3]"
  by (simp add: row_ids_def P0_def upt_rec)

lemma bin_P0: "efold (bin_point G0 (-1) P0) (row_ids P0) [] = Inr M0"
  unfolding row_ids_P0 by (simp add: eval_defs G0_def P0_def M0_def)

lemma run_P0: "\<exists>t ind. createPillars id id P0 2 1 G0 (-1) = Inr (t, ind)"
  unfolding createPillars_def
  apply (simp add: ndim_def P0_def [THEN arg_cong [of _ _ shape]])
  apply (simp add: bin_P0 ebind_def)
  apply (simp add: eval_defs M0_def G0_def)
  done

lemma run_P0_two: "\<exists>t ind. createPillars id id P0 2 2 G0 (-1) = Inr (t, ind)"
  unfolding createPillars_def
  apply (simp add: ndim_def P0_def [THEN arg_cong [of _ _ shape]])
  apply (simp add: bin_P0 ebind_def)
  apply (simp add: eval_defs M0_def G0_def)
  done

lemma pillars_rows:
  assumes "createPillars iter iter_rgb points maxPointsPerPillar maxPillars G minDistance = Inr (t, ind)"
  shows "(shape points ! 1 = 4 \<and>
           (\<exists>m. efold (bin_point G minDistance points) (row_ids points) [] = Inr m \<and>
                capped maxPillars maxPointsPerPillar (iter m) t ind)) \<or>
         (shape points ! 1 = 7 \<and>
           (\<exists>m. efold (bin_point_rgb G points) (row_ids points) [] = Inr m \<and>
                capped maxPillars maxPointsPerPillar (iter_rgb m) t ind))"
proof -
  from createPillars_Inr [OF assms] show ?thesis
  proof (elim disjE conjE exE)
    fix m
    assume s: "shape points ! 1 = 4"
      and b: "efold (bin_point G minDistance points) (row_ids points) [] = Inr m"
      and e: "encode_cells G no_colour 9 maxPointsPerPillar maxPillars (iter m) = Inr (t, ind)"
    from encode_cells_capped [OF e extra_ok_no_colour] s b show ?thesis by blast
  next
    fix m
    assume s: "shape points ! 1 = 7"
      and b: "efold (bin_point_rgb G points) (row_ids points) [] = Inr m"
      and e: "encode_cells G colour_writes 12 maxPointsPerPillar maxPillars (iter_rgb m) = Inr (t, ind)"
    from encode_cells_capped [OF e extra_ok_colour_writes] s b show ?thesis by blast
  qed
qed

subsection \<open>The claims on createPillars\<close>

text \<open>
  C3, where the code departs from it. The claim: createPillars raises an input-validation
  error whenever the second dimension of the point array is neither 4 nor 7. The two
  \<open>throw\<close> statements sit inside the branches that are entered only when the second
  dimension is 4 or 7. For every other second dimension nothing is raised: control
  reaches the end of the function without a \<open>return\<close>. An array of shape (1, 5) is such
  an input.
\<close>

theorem createPillars_other_width:
  assumes "2 \<le> ndim points" and "shape points ! 1 \<noteq> 4" and "shape points ! 1 \<noteq> 7"
  shows "createPillars iter iter_rgb points maxPointsPerPillar maxPillars G minDistance
         = Inl Undefined"
  using assms by (simp add: createPillars_def)

theorem createPillars_five_columns:
  "createPillars id id P5 1 1 G0 (- 1) = Inl Undefined"
  using createPillars_other_width [of P5 id id 1 1 G0 "- 1"] by (simp add: ndim_def P5_def)

text \<open>
  C4, at the input where the code departs from it. The claim: with \<open>minDistance > 0\<close> a
  point with \<open>x\<^sup>2 + y\<^sup>2 < minDistance\<^sup>2\<close> never reaches the feature array, in the
  4-column and in the 7-column branch. The point (1/2, 1/2, 0) is closer than
  \<open>minDistance = 1\<close>: the 4-column branch drops it, the 7-column branch has no such test
  and writes it into row 0 of pillar 0.
\<close>

theorem createPillars_rgb_keeps_close_point:
  "too_close 1 (1/2) (1/2) \<and>
   feature_value (createPillars id id P4 1 1 G0 1) [0, 0, 0, 0] = Some 0 \<and>
   feature_value (createPillars id id P7 1 1 G0 1) [0, 0, 0, 0] = Some (1/2)"
  by (simp add: feature_value_def eval_defs P4_def P7_def G0_def power2_eq_square)

theorem createPillars_rgb_differs:
  "feature_value (createPillars id id P7 1 1 G0 1) [0, 0, 0, 0]
     \<noteq> feature_value (createPillars id id P4 1 1 G0 1) [0, 0, 0, 0]"
  using createPillars_rgb_keeps_close_point by simp

text \<open>
  C5. Whenever createPillars returns, the feature array is zero outside the rows \<open>(p, q)\<close>
  with \<open>p\<close> below \<open>maxPillars\<close> and \<open>q\<close> below \<open>maxPointsPerPillar\<close> (and below the
  number of cells and of points of the cell), the index array is zero outside those
  pillars, and row \<open>q\<close> of pillar \<open>p\<close> holds point \<open>q\<close> of the vector of the cell visited
  as number \<open>p\<close>: of a cell with more points the first \<open>maxPointsPerPillar\<close> are kept, in
  the order in which \<open>emplace_back\<close> appended them. This holds for every order \<open>iter\<close> of
  the visit.
\<close>

theorem pillars_capped:
  assumes "createPillars iter iter_rgb points maxPointsPerPillar maxPillars G minDistance = Inr (t, ind)"
  shows "(shape points ! 1 = 4 \<and>
           (\<exists>m. efold (bin_point G minDistance points) (row_ids points) [] = Inr m \<and>
                capped maxPillars maxPointsPerPillar (iter m) t ind)) \<or>
         (shape points ! 1 = 7 \<and>
           (\<exists>m. efold (bin_point_rgb G points) (row_ids points) [] = Inr m \<and>
                capped maxPillars maxPointsPerPillar (iter_rgb m) t ind))"
  using assms by (rule pillars_rows)

theorem pillars_capped_witness:
  "\<exists>t ind. createPillars id id P0 2 1 G0 (-1) = Inr (t, ind) \<and>
     elems t [0, 0, 0, 0] = 1/2 \<and> elems t [0, 0, 1, 0] = 1/4 \<and>
     elems t [0, 0, 2, 0] = 0 \<and> elems t [0, 1, 0, 0] = 0"
proof -
  from run_P0 obtain t ind where e: "createPillars id id P0 2 1 G0 (-1) = Inr (t, ind)" by blast
  have s: "shape P0 ! 1 = 4" by (simp add: P0_def)
  from pillars_capped [OF e] s bin_P0 have c: "capped 1 2 M0 t ind" by auto
  have k: "kept 1 2 M0 0 0" "kept 1 2 M0 0 1" by (simp_all add: kept_def M0_def)
  have n: "\<nexists>p q c. [0, 0, 2, 0] = [0, p, q, c] \<and> kept 1 2 M0 p q"
    "\<nexists>p q c. [0, 1, 0, 0] = [0, p, q, c] \<and> kept 1 2 M0 p q"
    by (simp_all add: kept_def)
  from c k have "elems t [0, 0, 0, 0] = 1/2" "elems t [0, 0, 1, 0] = 1/4"
    unfolding capped_def by (auto simp: M0_def)
  moreover from c n have "elems t [0, 0, 2, 0] = 0" "elems t [0, 1, 0, 0] = 0"
    unfolding capped_def by blast+
  ultimately show ?thesis using e by blast
qed

text \<open>
  C7, where the code departs from it. The claim: channels 7 and 8 of every emitted row are
  the offsets \<open>x - cellCenterX\<close>, \<open>y - cellCenterY\<close> of the point from the centre of
  its cell, computed from the key \<open>(xIndex, yIndex)\<close> of the cell. What the code writes
  is \<open>x - (xIndex * xStep + xMin)\<close> and \<open>y - (yIndex * yStep + yMin)\<close>: the offsets
  from the corner of the cell with the least coordinates, half a step away from its
  centre, although the comment at the two assignments says pillar centre. The theorem
  states what is written, whenever createPillars returns, for the key under which the
  points of the pillar were binned: the source takes the two indices from the centroid of
  the cell, and over the reals the centroid of points of one cell lies in that cell
  (lemma \<open>mean_index\<close>). The visit \<open>iter\<close> may take the cells in any order but invents
  none. In \<open>P0\<close> the point with \<open>x = 5/2\<close>, \<open>y = 1/2\<close> lies at the centre of cell
  (2, 0), and its channels 7 and 8 hold 1/2, not 0.
\<close>

theorem pillar_centre_offsets:
  assumes "createPillars iter iter_rgb points maxPointsPerPillar maxPillars G minDistance = Inr (t, ind)"
    and "\<forall>m. set (iter m) \<subseteq> set m" and "\<forall>m. set (iter_rgb m) \<subseteq> set m"
  shows "(shape points ! 1 = 4 \<and>
           (\<exists>m. efold (bin_point G minDistance points) (row_ids points) [] = Inr m \<and>
                centre_offsets G maxPillars maxPointsPerPillar (iter m) t)) \<or>
         (shape points ! 1 = 7 \<and>
           (\<exists>m. efold (bin_point_rgb G points) (row_ids points) [] = Inr m \<and>
                centre_offsets G maxPillars maxPointsPerPillar (iter_rgb m) t))"
proof -
  from createPillars_Inr [OF assms(1)] show ?thesis
  proof (elim disjE conjE exE)
    fix m
    assume s: "shape points ! 1 = 4" and b: "efold (bin_point G minDistance points) (row_ids points) [] = Inr m"
      and e: "encode_cells G no_colour 9 maxPointsPerPillar maxPillars (iter m) = Inr (t, ind)"
    have "\<forall>c \<in> set m. cell_ok G c"
      by (rule efold_invariant [OF b, where P = "\<lambda>m. \<forall>c \<in> set m. cell_ok G c"])
         (simp, rule bin_point_ok)
    with assms(2) have "\<forall>c \<in> set (iter m). cell_ok G c" by blast
    from encode_cells_centre_offsets [OF e extra_ok_no_colour this] s b show ?thesis by blast
  next
    fix m
    assume s: "shape points ! 1 = 7" and b: "efold (bin_point_rgb G points) (row_ids points) [] = Inr m"
      and e: "encode_cells G colour_writes 12 maxPointsPerPillar maxPillars (iter_rgb m) = Inr (t, ind)"
    have "\<forall>c \<in> set m. cell_ok G c"
      by (rule efold_invariant [OF b, where P = "\<lambda>m. \<forall>c \<in> set m. cell_ok G c"])
         (simp, rule bin_point_rgb_ok)
    with assms(3) have "\<forall>c \<in> set (iter_rgb m). cell_ok G c" by blast
    from encode_cells_centre_offsets [OF e extra_ok_colour_writes this] s b show ?thesis by blast
  qed
qed

theorem pillar_centre_offsets_witness:
  "\<exists>t ind. createPillars id id P0 2 2 G0 (-1) = Inr (t, ind) \<and>
     elems t [0, 1, 0, 0] = 5/2 \<and> elems t [0, 1, 0, 1] = 1/2 \<and>
     elems t [0, 1, 0, 7] = 1/2 \<and> elems t [0, 1, 0, 8] = 1/2 \<and>
     5/2 - ((2 + 1/2) * xStep G0 + xMin G0) = 0 \<and> 1/2 - ((0 + 1/2) * yStep G0 + yMin G0) = 0"
proof -
  from run_P0_two obtain t ind where e: "createPillars id id P0 2 2 G0 (-1) = Inr (t, ind)"
    by blast
  have s: "shape P0 ! 1 = 4" by (simp add: P0_def)
  have i: "\<forall>m :: PillarPoint cells. set (id m) \<subseteq> set m"
    "\<forall>m :: PillarPointRGB cells. set (id m) \<subseteq> set m" by simp_all
  from pillar_centre_offsets [OF e i] s bin_P0 have c: "centre_offsets G0 2 2 M0 t" by auto
  have k: "kept 2 2 M0 1 0" "kept 2 2 M0 0 1" by (simp_all add: kept_def M0_def)
  from c k have v: "elems t [0, 1, 0, 7] = 1/2 \<and> elems t [0, 1, 0, 8] = 1/2"
    unfolding centre_offsets_def by (auto simp: M0_def G0_def)
  from pillars_rows [OF e] s bin_P0 have "capped 2 2 M0 t ind" by auto
  with k have w: "elems t [0, 1, 0, 0] = 5/2 \<and> elems t [0, 1, 0, 1] = 1/2"
    unfolding capped_def by (auto simp: M0_def)
  have "5/2 - ((2 + 1/2) * xStep G0 + xMin G0) = 0" "1/2 - ((0 + 1/2) * yStep G0 + yMin G0) = 0"
    by (simp_all add: G0_def)
  with e v w show ?thesis by blast
qed

subsection \<open>The loops of createPillarsTarget\<close>

lemma write_all_holds:
  assumes "write_all t ws = Inr t'" and "holds Q t" and "\<forall>(i, v) \<in> set ws. Q i v"
  shows "holds Q t'"
  using assms
proof (induction ws arbitrary: t)
  case Nil
  then show ?case by simp
next
  case (Cons w ws)
  obtain j u where w: "w = (j, u)" by (cases w)
  from Cons.prems(1) w obtain t1 where t1: "mutable_at t j u = Inr t1" "write_all t1 ws = Inr t'"
    by (auto simp: ebind_Inr)
  from Cons.prems(3) w have q: "Q j u" and r: "\<forall>(i, v) \<in> set ws. Q i v" by auto
  from t1(1) Cons.prems(2) q have "holds Q t1" by (auto simp: mutable_at_Inr holds_def)
  from Cons.IH [OF t1(2) this r] show ?case .
qed

lemma positive_writes_target:
  "(i, v) \<in> set (positive_writes oc xId yId a labelBox anchorBox ax ay diag) \<Longrightarrow> target_write oc i v"
  unfolding target_write_def by blast

lemma heading_flip_zero: "heading_flip d = 0"
proof -
  have "\<not> (\<bar>d\<bar> < pi / 2 \<and> \<bar>d\<bar> > 1.5 * pi)" using pi_gt_zero by linarith
  then show ?thesis unfolding heading_flip_def by simp
qed

lemma positive_writes_mem:
  assumes "(i, v) \<in> set (positive_writes oc xId yId a labelBox anchorBox ax ay diag)"
  shows "\<exists>c. i = [oc, xId, yId, a, c] \<and> (c = 8 \<longrightarrow> v = Fin 0)"
proof -
  from assms have "i = [oc, xId, yId, a, 0] \<or> i = [oc, xId, yId, a, 1] \<or> i = [oc, xId, yId, a, 2]
     \<or> i = [oc, xId, yId, a, 3] \<or> i = [oc, xId, yId, a, 4] \<or> i = [oc, xId, yId, a, 5]
     \<or> i = [oc, xId, yId, a, 6] \<or> i = [oc, xId, yId, a, 7]
     \<or> (i = [oc, xId, yId, a, 8] \<and> v = Fin 0) \<or> i = [oc, xId, yId, a, 9]"
    unfolding positive_writes_def heading_flip_zero by simp blast
  then show ?thesis by (elim disjE conjE) simp_all
qed

lemma anchor_step_holds:
  assumes "anchor_step I diags labelBox oc xId yId s ca = Inr s'" and "holds Q (target s)"
    and "\<And>i v. target_write oc i v \<Longrightarrow> Q i v"
  shows "holds Q (target s')"
proof -
  define a where "a = place_anchor (angle_threshold I)
      (of_int xId * xStep (bounds I) * of_int (downscalingFactor I) + xMin (bounds I))
      (of_int yId * yStep (bounds I) * of_int (downscalingFactor I) + yMin (bounds I)) labelBox (snd ca)"
  define ws where "ws = (if fl_less (Fin (positiveThreshold I)) (iou a labelBox) then
                    positive_writes oc xId yId (fst ca) labelBox a
                      (box_x a) (box_y a) (diags ! nat (fst ca))
                  else if fl_less (iou a labelBox) (Fin (negativeThreshold I)) then
                    [([oc, xId, yId, fst ca, 0], Fin 0)]
                  else [([oc, xId, yId, fst ca, 0], Fin (- 1))])"
  from assms(1) obtain t' where w: "write_all (target s) ws = Inr t'" and s': "target s' = t'"
    unfolding anchor_step_def Let_def a_def [symmetric] ws_def [symmetric]
    by (auto simp: ebind_Inr split: if_splits)
  have "\<forall>(i, v) \<in> set ws. Q i v"
  proof (clarify)
    fix i v assume "(i, v) \<in> set ws"
    then have "target_write oc i v"
      unfolding ws_def target_write_def by (auto split: if_splits)
    then show "Q i v" by (rule assms(3))
  qed
  from write_all_holds [OF w assms(2) this] s' show ?thesis by simp
qed

lemma search_window_holds:
  assumes "search_window I anchorBoxes diags labelBox oc xIds yIds s = Inr s'"
    and "holds Q (target s)" and "\<And>i v. target_write oc i v \<Longrightarrow> Q i v"
  shows "holds Q (target s')"
proof -
  have 1: "holds Q (target s2)"
    if "efold (anchor_step I diags labelBox oc xId yId) cas s1 = Inr s2" "holds Q (target s1)"
    for xId yId cas s1 s2
    by (rule efold_invariant [OF that(1), where P = "\<lambda>s. holds Q (target s)"])
       (rule that(2), rule anchor_step_holds, assumption+, rule assms(3))
  have 2: "holds Q (target s2)"
    if "efold (\<lambda>s yId. efold (anchor_step I diags labelBox oc xId yId) cas s) ys s1 = Inr s2"
      "holds Q (target s1)"
    for xId cas ys s1 s2
    by (rule efold_invariant [OF that(1), where P = "\<lambda>s. holds Q (target s)"])
       (rule that(2), rule 1)
  show ?thesis
    by (rule efold_invariant [OF assms(1) [unfolded search_window_def],
          where P = "\<lambda>s. holds Q (target s)"])
       (rule assms(2), rule 2)
qed

lemma fallback_step_holds:
  assumes "fallback_step I xSize ySize labelBox oc best bestId xId_0 yId_0 t d = Inr t'"
    and "holds Q t" and "\<And>i v. target_write oc i v \<Longrightarrow> Q i v"
  shows "holds Q t'"
proof -
  define xId where "xId = clip_int (xId_0 + fst d) 0 (xSize - 1)"
  define yId where "yId = clip_int (yId_0 + snd d) 0 (ySize - 1)"
  show ?thesis
  proof (cases "fst d = 0 \<and> snd d = 0")
    case True
    with assms(1) obtain px py diag where
      w: "write_all t (positive_writes oc xId yId bestId labelBox best px py diag) = Inr t'"
      unfolding fallback_step_def Let_def xId_def yId_def
      by (auto simp del: write_all.simps split: if_splits)
    have "\<forall>(i, v) \<in> set (positive_writes oc xId yId bestId labelBox best px py diag). Q i v"
      using positive_writes_target assms(3) by blast
    from write_all_holds [OF w assms(2) this] show ?thesis .
  next
    case False
    show ?thesis
    proof (cases "xId_0 + fst d \<ge> 0 \<and> xId_0 + fst d < xSize \<and> yId_0 + snd d \<ge> 0 \<and> yId_0 + snd d < ySize")
      case True
      with False assms(1) have
        w: "write_all t [([oc, xId, yId, bestId, 0], Fin (- 1))] = Inr t'"
        unfolding fallback_step_def Let_def xId_def yId_def
        by (auto simp del: write_all.simps split: if_splits)
      have "target_write oc [oc, xId, yId, bestId, 0] (Fin (- 1))"
        unfolding target_write_def by blast
      with assms(3) have "\<forall>(i, v) \<in> set [([oc, xId, yId, bestId, 0], Fin (- 1))]. Q i v" by simp
      from write_all_holds [OF w assms(2) this] show ?thesis .
    next
      case F2: False
      with False assms(1) have "t' = t" unfolding fallback_step_def Let_def
        by (auto simp del: write_all.simps split: if_splits)
      with assms(2) show ?thesis by simp
    qed
  qed
qed

lemma fallback_holds:
  assumes "fallback I xSize ySize labelBox oc s = Inr t'"
    and "holds Q (target s)" and "\<And>i v. target_write oc i v \<Longrightarrow> Q i v"
  shows "holds Q t'"
proof -
  from assms(1) obtain xId_0 yId_0 where
    e: "efold (fallback_step I xSize ySize labelBox oc (bestAnchor s) (bestAnchorId s) xId_0 yId_0)
          offsets (target s) = Inr t'"
    by (auto simp: fallback_def ebind_Inr)
  show ?thesis
    by (rule efold_invariant [OF e, where P = "holds Q"])
       (rule assms(2), rule fallback_step_holds, assumption+, rule assms(3))
qed

lemma encode_object_Inr:
  assumes "encode_object I xSize ySize anchorBoxes diags (oc, t) labelBox = Inr ot'"
  obtains offset xC yC s t' where
    "ceil_to_int (fdiv (sqrt ((box_width labelBox) ^ 2 + (box_length labelBox) ^ 2))
        (xStep (bounds I) * of_int (downscalingFactor I))) = Inr offset"
    "cell_of (box_x labelBox) (xMin (bounds I)) (xStep (bounds I)) (downscalingFactor I) = Inr xC"
    "cell_of (box_y labelBox) (yMin (bounds I)) (yStep (bounds I)) (downscalingFactor I) = Inr yC"
    "search_window I anchorBoxes diags labelBox oc
       (int_upto (clip_int (xC - offset) 0 xSize) (clip_int (xC + offset) 0 xSize))
       (int_upto (clip_int (yC - offset) 0 ySize) (clip_int (yC + offset) 0 ySize))
       \<lparr>maxIou = Fin 0, bestAnchor = zero_box, bestAnchorId = 0, target = t\<rparr> = Inr s"
    "(if fl_less (maxIou s) (Fin (positiveThreshold I))
      then fallback I xSize ySize labelBox oc s else Inr (target s)) = Inr t'"
    "ot' = (oc + 1, t')"
proof -
  from assms have "\<exists>offset xC yC s t'.
    ceil_to_int (fdiv (sqrt ((box_width labelBox) ^ 2 + (box_length labelBox) ^ 2))
        (xStep (bounds I) * of_int (downscalingFactor I))) = Inr offset \<and>
    cell_of (box_x labelBox) (xMin (bounds I)) (xStep (bounds I)) (downscalingFactor I) = Inr xC \<and>
    cell_of (box_y labelBox) (yMin (bounds I)) (yStep (bounds I)) (downscalingFactor I) = Inr yC \<and>
    search_window I anchorBoxes diags labelBox oc
       (int_upto (clip_int (xC - offset) 0 xSize) (clip_int (xC + offset) 0 xSize))
       (int_upto (clip_int (yC - offset) 0 ySize) (clip_int (yC + offset) 0 ySize))
       \<lparr>maxIou = Fin 0, bestAnchor = zero_box, bestAnchorId = 0, target = t\<rparr> = Inr s \<and>
    (if fl_less (maxIou s) (Fin (positiveThreshold I))
      then fallback I xSize ySize labelBox oc s else Inr (target s)) = Inr t' \<and>
    ot' = (oc + 1, t')"
    unfolding encode_object_def Let_def ebind_Inr fst_conv snd_conv by blast
  with that show ?thesis by blast
qed

lemma encode_object_holds:
  assumes "encode_object I xSize ySize anchorBoxes diags (oc, t) labelBox = Inr ot'"
    and "holds Q t" and "\<And>i v. target_write oc i v \<Longrightarrow> Q i v"
  shows "holds Q (snd ot') \<and> fst ot' = oc + 1"
proof -
  from encode_object_Inr [OF assms(1)] obtain xIds yIds s t' where
    s: "search_window I anchorBoxes diags labelBox oc xIds yIds
          \<lparr>maxIou = Fin 0, bestAnchor = zero_box, bestAnchorId = 0, target = t\<rparr> = Inr s"
    and f: "(if fl_less (maxIou s) (Fin (positiveThreshold I))
             then fallback I xSize ySize labelBox oc s else Inr (target s)) = Inr t'"
    and r: "ot' = (oc + 1, t')"
    by metis
  from search_window_holds [OF s _ assms(3)] assms(2) have h: "holds Q (target s)" by simp
  have "holds Q t'"
  proof (cases "fl_less (maxIou s) (Fin (positiveThreshold I))")
    case True
    with f have "fallback I xSize ySize labelBox oc s = Inr t'" by simp
    from fallback_holds [OF this h assms(3)] show ?thesis .
  next
    case False
    with f h show ?thesis by simp
  qed
  with r show ?thesis by simp
qed

lemma objects_holds:
  assumes "efold (encode_object I xSize ySize anchorBoxes diags) ls (oc, t) = Inr ot'"
    and "holds Q t"
    and "\<And>k i v. oc \<le> k \<Longrightarrow> k < oc + int (length ls) \<Longrightarrow> target_write k i v \<Longrightarrow> Q i v"
  shows "holds Q (snd ot') \<and> fst ot' = oc + int (length ls)"
  using assms
proof (induction ls arbitrary: oc t)
  case Nil
  then show ?case by auto
next
  case (Cons l ls)
  from Cons.prems(1) obtain ot1 where
    e1: "encode_object I xSize ySize anchorBoxes diags (oc, t) l = Inr ot1"
    and e2: "efold (encode_object I xSize ySize anchorBoxes diags) ls ot1 = Inr ot'"
    by (auto simp: ebind_Inr)
  have "\<And>i v. target_write oc i v \<Longrightarrow> Q i v" using Cons.prems(3) [of oc] by simp
  from encode_object_holds [OF e1 Cons.prems(2) this]
  have h: "holds Q (snd ot1)" and c: "fst ot1 = oc + 1" by simp_all
  from e2 c have e3: "efold (encode_object I xSize ySize anchorBoxes diags) ls (oc + 1, snd ot1) = Inr ot'"
    by (cases ot1) simp
  have "\<And>k i v. oc + 1 \<le> k \<Longrightarrow> k < oc + 1 + int (length ls) \<Longrightarrow> target_write k i v \<Longrightarrow> Q i v"
  proof -
    fix k i v
    assume "oc + 1 \<le> k" "k < oc + 1 + int (length ls)" "target_write k i v"
    then show "Q i v" using Cons.prems(3) [of k i v] by simp
  qed
  from Cons.IH [OF e3 h this] show ?case by simp
qed

lemma createPillarsTarget_Inr:
  assumes "createPillarsTarget I = Inr t"
  obtains xSize ySize anchorBoxes labelBoxes oc where
    "floor_to_int (fdiv (xMax (bounds I) - xMin (bounds I))
        (xStep (bounds I) * of_int (downscalingFactor I))) = Inr xSize"
    "floor_to_int (fdiv (yMax (bounds I) - yMin (bounds I))
        (yStep (bounds I) * of_int (downscalingFactor I))) = Inr ySize"
    "efold (parse_anchor I) (count_upto (length (anchorDimensions I))) [] = Inr anchorBoxes"
    "efold (parse_label I) (count_upto (length (objectDimensions I))) [] = Inr labelBoxes"
    "efold (encode_object I xSize ySize anchorBoxes (map diagonal anchorBoxes)) labelBoxes
       (0, \<lparr>dims = [int (length (objectDimensions I)), xSize, ySize,
                     int (length (anchorDimensions I)), 10], elems = (\<lambda>_. Fin 0)\<rparr>)
     = Inr (oc, t)"
proof -
  from assms obtain xSize ySize where
    x: "floor_to_int (fdiv (xMax (bounds I) - xMin (bounds I))
        (xStep (bounds I) * of_int (downscalingFactor I))) = Inr xSize"
    and y: "floor_to_int (fdiv (yMax (bounds I) - yMin (bounds I))
        (yStep (bounds I) * of_int (downscalingFactor I))) = Inr ySize"
    and r: "(if length (anchorDimensions I) = 0 then Inl (RuntimeError ''Anchor length is zero'')
               else if length (objectDimensions I) = 0 then Inl (RuntimeError ''Object length is zero'')
                     else
                       ebind (efold (parse_anchor I) (count_upto (length (anchorDimensions I))) []) (\<lambda>anchorBoxes.
                       ebind (efold (parse_label I) (count_upto (length (objectDimensions I))) []) (\<lambda>labelBoxes.
                       ebind (zeros [int (length (objectDimensions I)), xSize, ySize, int (length (anchorDimensions I)), 10] (Fin 0))
                         (\<lambda>tensor.
                       ebind (efold (encode_object I xSize ySize anchorBoxes
                                       (map diagonal anchorBoxes))
                                labelBoxes (0, tensor))
                         (\<lambda>ot. Inr (snd ot)))))) = Inr t"
    unfolding createPillarsTarget_def Let_def ebind_Inr [of "floor_to_int _"] by blast
  from r have r': "ebind (efold (parse_anchor I) (count_upto (length (anchorDimensions I))) []) (\<lambda>anchorBoxes.
                       ebind (efold (parse_label I) (count_upto (length (objectDimensions I))) []) (\<lambda>labelBoxes.
                       ebind (zeros [int (length (objectDimensions I)), xSize, ySize, int (length (anchorDimensions I)), 10] (Fin 0))
                         (\<lambda>tensor.
                       ebind (efold (encode_object I xSize ySize anchorBoxes
                                       (map diagonal anchorBoxes))
                                labelBoxes (0, tensor))
                         (\<lambda>ot. Inr (snd ot))))) = Inr t"
    by (simp split: if_splits)
  then obtain anchorBoxes labelBoxes tensor ot where
    a: "efold (parse_anchor I) (count_upto (length (anchorDimensions I))) [] = Inr anchorBoxes"
    and l: "efold (parse_label I) (count_upto (length (objectDimensions I))) [] = Inr labelBoxes"
    and z: "zeros [int (length (objectDimensions I)), xSize, ySize, int (length (anchorDimensions I)), 10] (Fin 0) = Inr tensor"
    and e: "efold (encode_object I xSize ySize anchorBoxes (map diagonal anchorBoxes))
                                labelBoxes (0, tensor) = Inr ot"
    and t: "snd ot = t"
    unfolding ebind_Inr by blast
  from z have z': "tensor = \<lparr>dims = [int (length (objectDimensions I)), xSize, ySize,
                     int (length (anchorDimensions I)), 10], elems = (\<lambda>_. Fin 0)\<rparr>"
    by (simp add: zeros_def split: if_splits)
  from e t z' have "efold (encode_object I xSize ySize anchorBoxes (map diagonal anchorBoxes)) labelBoxes
       (0, \<lparr>dims = [int (length (objectDimensions I)), xSize, ySize,
                     int (length (anchorDimensions I)), 10], elems = (\<lambda>_. Fin 0)\<rparr>)
     = Inr (fst ot, t)" by (cases ot) simp
  with that x y a l show ?thesis by blast
qed

lemma positive_writes_flip_zero:
  assumes "(i, v) \<in> set (positive_writes oc xId yId a labelBox anchorBox ax ay diag)"
  shows "flip_zero i v"
  using positive_writes_mem [OF assms] unfolding flip_zero_def by auto

lemma target_write_flip_zero:
  assumes "target_write oc i v"
  shows "flip_zero i v"
proof -
  from assms consider (label) xId yId a where "i = [oc, xId, yId, a, 0]"
    | (pos) xId yId a labelBox anchorBox ax ay diag where
      "(i, v) \<in> set (positive_writes oc xId yId a labelBox anchorBox ax ay diag)"
    unfolding target_write_def by blast
  then show ?thesis
  proof cases
    case label
    then show ?thesis by (simp add: flip_zero_def)
  next
    case pos
    then show ?thesis by (rule positive_writes_flip_zero)
  qed
qed










lemma efold_append: "efold f (as @ bs) s = ebind (efold f as s) (efold f bs)"
  by (induction as arbitrary: s) (auto simp: ebind_def split: sum.splits)

lemma efold_invariant_mem:
  assumes "efold f as s = Inr s'" and "P s"
    and "\<And>s a s'. a \<in> set as \<Longrightarrow> f s a = Inr s' \<Longrightarrow> P s \<Longrightarrow> P s'"
  shows "P s'"
  using assms
proof (induction as arbitrary: s)
  case Nil
  then show ?case by simp
next
  case (Cons a as)
  from Cons.prems(1) obtain s1 where s1: "f s a = Inr s1" "efold f as s1 = Inr s'"
    by (auto simp: ebind_Inr)
  from Cons.prems(3) [OF _ s1(1) Cons.prems(2)] have p: "P s1" by simp
  show ?case by (rule Cons.IH [OF s1(2) p]) (rule Cons.prems(3), simp_all)
qed

lemma offsets_split:
  "offsets = [(-2, -2), (-2, -1), (-2, 0), (-2, 1), (-2, 2), (-1, -2), (-1, -1), (-1, 0), (-1, 1),
              (-1, 2), (0, -2), (0, -1)] @
             (0, 0) # [(0, 1), (0, 2), (1, -2), (1, -1), (1, 0), (1, 1), (1, 2), (2, -2), (2, -1),
              (2, 0), (2, 1), (2, 2)]"
  by (simp add: offsets_def)

lemma positive_writes_distinct:
  "distinct (map fst (positive_writes objectCount xId yId a labelBox anchorBox ax ay diag))"
  by (simp add: positive_writes_def)

lemma fallback_step_centre:
  "fallback_step I xSize ySize labelBox oc best bestId xId_0 yId_0 t (0, 0) =
     write_all t (positive_writes oc (clip_int xId_0 0 (xSize - 1)) (clip_int yId_0 0 (ySize - 1))
        bestId labelBox best (cell_x I (clip_int xId_0 0 (xSize - 1)))
        (cell_y I (clip_int yId_0 0 (ySize - 1))) (diagonal best))"
  by (simp add: fallback_step_def Let_def cell_x_def cell_y_def diagonal_def del: write_all.simps)

lemma fallback_step_other:
  assumes "fallback_step I xSize ySize labelBox oc best bestId xId_0 yId_0 t d = Inr t'"
    and "d \<noteq> (0, 0)"
  shows "t' = t \<or>
    (0 \<le> xId_0 + fst d \<and> xId_0 + fst d < xSize \<and> 0 \<le> yId_0 + snd d \<and> yId_0 + snd d < ySize \<and>
     t' = t\<lparr>elems := (elems t)([oc, xId_0 + fst d, yId_0 + snd d, bestId, 0] := Fin (- 1))\<rparr>)"
proof -
  from assms(2) have n: "\<not> (fst d = 0 \<and> snd d = 0)" by (cases d) simp
  show ?thesis
  proof (cases "xId_0 + fst d \<ge> 0 \<and> xId_0 + fst d < xSize \<and> yId_0 + snd d \<ge> 0 \<and> yId_0 + snd d < ySize")
    case True
    then have c: "clip_int (xId_0 + fst d) 0 (xSize - 1) = xId_0 + fst d"
      "clip_int (yId_0 + snd d) 0 (ySize - 1) = yId_0 + snd d"
      by (simp_all add: clip_int_def)
    from assms(1) n True have "mutable_at t [oc, xId_0 + fst d, yId_0 + snd d, bestId, 0] (Fin (- 1)) = Inr t'"
      unfolding fallback_step_def Let_def c by (simp add: ebind_Inr)
    with True show ?thesis by (simp add: mutable_at_Inr)
  next
    case False
    with assms(1) n have "t' = t" unfolding fallback_step_def Let_def by auto
    then show ?thesis by simp
  qed
qed

lemma fallback_step_channels:
  assumes "fallback_step I xSize ySize labelBox oc best bestId xId_0 yId_0 t d = Inr t'"
    and "d \<noteq> (0, 0)" and "c \<noteq> 0"
  shows "elems t' [k, xId, yId, a, c] = elems t [k, xId, yId, a, c]"
  using fallback_step_other [OF assms(1,2)] assms(3) by auto

lemma fallback_step_later:
  assumes "fallback_step I xSize ySize labelBox oc best bestId xId_0 yId_0 t d = Inr t'"
    and "0 < fst d \<or> (fst d = 0 \<and> 0 < snd d)" and "0 \<le> xId_0" and "0 \<le> yId_0"
  shows "elems t' [k, clip_int xId_0 0 (xSize - 1), clip_int yId_0 0 (ySize - 1), a, c]
       = elems t [k, clip_int xId_0 0 (xSize - 1), clip_int yId_0 0 (ySize - 1), a, c]"
proof -
  from assms(2) have "d \<noteq> (0, 0)" by auto
  from fallback_step_other [OF assms(1) this] show ?thesis
  proof
    assume "t' = t"
    then show ?thesis by simp
  next
    assume r: "0 \<le> xId_0 + fst d \<and> xId_0 + fst d < xSize \<and> 0 \<le> yId_0 + snd d \<and> yId_0 + snd d < ySize \<and>
     t' = t\<lparr>elems := (elems t)([oc, xId_0 + fst d, yId_0 + snd d, bestId, 0] := Fin (- 1))\<rparr>"
    with assms(3,4) have "clip_int xId_0 0 (xSize - 1) \<le> xId_0" "clip_int yId_0 0 (ySize - 1) \<le> yId_0"
      by (simp_all add: clip_int_def)
    with assms(2) have "clip_int xId_0 0 (xSize - 1) \<noteq> xId_0 + fst d
        \<or> clip_int yId_0 0 (ySize - 1) \<noteq> yId_0 + snd d" by linarith
    with r show ?thesis by auto
  qed
qed

lemma fallback_Inr:
  assumes "fallback I xSize ySize labelBox oc s = Inr t'"
    and "cell_of (box_x labelBox) (xMin (bounds I)) (xStep (bounds I)) (downscalingFactor I) = Inr xId_0"
    and "cell_of (box_y labelBox) (yMin (bounds I)) (yStep (bounds I)) (downscalingFactor I) = Inr yId_0"
  obtains t1 t2 where
    "write_all t1 (positive_writes oc (clip_int xId_0 0 (xSize - 1)) (clip_int yId_0 0 (ySize - 1))
        (bestAnchorId s) labelBox (bestAnchor s) (cell_x I (clip_int xId_0 0 (xSize - 1)))
        (cell_y I (clip_int yId_0 0 (ySize - 1))) (diagonal (bestAnchor s))) = Inr t2"
    "efold (fallback_step I xSize ySize labelBox oc (bestAnchor s) (bestAnchorId s) xId_0 yId_0)
       [(0, 1), (0, 2), (1, -2), (1, -1), (1, 0), (1, 1), (1, 2), (2, -2), (2, -1),
              (2, 0), (2, 1), (2, 2)] t2 = Inr t'"
proof -
  from assms have "efold (fallback_step I xSize ySize labelBox oc (bestAnchor s) (bestAnchorId s)
      xId_0 yId_0) offsets (target s) = Inr t'"
    by (simp add: fallback_def ebind_def)
  then obtain t1 t2 where
    "fallback_step I xSize ySize labelBox oc (bestAnchor s) (bestAnchorId s) xId_0 yId_0 t1 (0, 0) = Inr t2"
    "efold (fallback_step I xSize ySize labelBox oc (bestAnchor s) (bestAnchorId s) xId_0 yId_0)
       [(0, 1), (0, 2), (1, -2), (1, -1), (1, 0), (1, 1), (1, 2), (2, -2), (2, -1),
              (2, 0), (2, 1), (2, 2)] t2 = Inr t'"
    unfolding offsets_split efold_append efold.simps(2) ebind_Inr by blast
  with that show ?thesis unfolding fallback_step_centre by blast
qed

lemma fallback_centre:
  assumes "fallback I xSize ySize labelBox objectCount s = Inr t"
    and "cell_of (box_x labelBox) (xMin (bounds I)) (xStep (bounds I)) (downscalingFactor I) = Inr xId_0"
    and "cell_of (box_y labelBox) (yMin (bounds I)) (yStep (bounds I)) (downscalingFactor I) = Inr yId_0"
    and "0 \<le> xId_0" and "0 \<le> yId_0"
  shows "elems t [objectCount, clip_int xId_0 0 (xSize - 1), clip_int yId_0 0 (ySize - 1),
                  bestAnchorId s, 0] = Fin 1 \<and>
         elems t [objectCount, clip_int xId_0 0 (xSize - 1), clip_int yId_0 0 (ySize - 1),
                  bestAnchorId s, 1]
           = fdiv (box_x labelBox - cell_x I (clip_int xId_0 0 (xSize - 1))) (diagonal (bestAnchor s)) \<and>
         elems t [objectCount, clip_int xId_0 0 (xSize - 1), clip_int yId_0 0 (ySize - 1),
                  bestAnchorId s, 2]
           = fdiv (box_y labelBox - cell_y I (clip_int yId_0 0 (ySize - 1))) (diagonal (bestAnchor s))"
proof (rule fallback_Inr [OF assms(1,2,3)])
  fix t1 t2
  let ?xc = "clip_int xId_0 0 (xSize - 1)" and ?yc = "clip_int yId_0 0 (ySize - 1)"
  let ?ws = "positive_writes objectCount ?xc ?yc (bestAnchorId s) labelBox (bestAnchor s)
        (cell_x I ?xc) (cell_y I ?yc) (diagonal (bestAnchor s))"
  let ?post = "[(0, 1), (0, 2), (1, -2), (1, -1), (1, 0), (1, 1), (1, 2), (2, -2), (2, -1),
              (2, 0), (2, 1), (2, 2)] :: (int \<times> int) list"
  assume w: "write_all t1 ?ws = Inr t2"
    and p: "efold (fallback_step I xSize ySize labelBox objectCount (bestAnchor s) (bestAnchorId s)
       xId_0 yId_0) ?post t2 = Inr t"
  have keep: "elems t [objectCount, ?xc, ?yc, a, c] = elems t2 [objectCount, ?xc, ?yc, a, c]" for a c
  proof (rule efold_invariant_mem [OF p,
        where P = "\<lambda>u. elems u [objectCount, ?xc, ?yc, a, c] = elems t2 [objectCount, ?xc, ?yc, a, c]"])
    show "elems t2 [objectCount, ?xc, ?yc, a, c] = elems t2 [objectCount, ?xc, ?yc, a, c]" ..
  next
    fix u d u'
    assume d: "d \<in> set ?post"
      and f: "fallback_step I xSize ySize labelBox objectCount (bestAnchor s) (bestAnchorId s)
          xId_0 yId_0 u d = Inr u'"
      and h: "elems u [objectCount, ?xc, ?yc, a, c] = elems t2 [objectCount, ?xc, ?yc, a, c]"
    from d have "0 < fst d \<or> (fst d = 0 \<and> 0 < snd d)" by auto
    from fallback_step_later [OF f this assms(4,5)] h
    show "elems u' [objectCount, ?xc, ?yc, a, c] = elems t2 [objectCount, ?xc, ?yc, a, c]" by simp
  qed
  have "elems t2 [objectCount, ?xc, ?yc, bestAnchorId s, 0] = Fin 1"
    by (rule write_all_value [OF w positive_writes_distinct]) (simp add: positive_writes_def)
  moreover have "elems t2 [objectCount, ?xc, ?yc, bestAnchorId s, 1]
      = fdiv (box_x labelBox - cell_x I ?xc) (diagonal (bestAnchor s))"
    by (rule write_all_value [OF w positive_writes_distinct]) (simp add: positive_writes_def)
  moreover have "elems t2 [objectCount, ?xc, ?yc, bestAnchorId s, 2]
      = fdiv (box_y labelBox - cell_y I ?yc) (diagonal (bestAnchor s))"
    by (rule write_all_value [OF w positive_writes_distinct]) (simp add: positive_writes_def)
  ultimately show ?thesis by (simp add: keep)
qed

lemma anchor_step_best:
  assumes "anchor_step I diags labelBox oc xId yId s ca = Inr s'"
    and "\<not> fl_less (maxIou s)
            (iou (place_anchor (angle_threshold I) (cell_x I xId) (cell_y I yId) labelBox (snd ca))
               labelBox)"
  shows "maxIou s' = maxIou s \<and> bestAnchor s' = bestAnchor s \<and> bestAnchorId s' = bestAnchorId s"
  using assms unfolding anchor_step_def Let_def cell_x_def cell_y_def
  by (auto simp: ebind_Inr)

lemma search_no_overlap:
  assumes "search_window I anchorBoxes diags labelBox oc xIds yIds s0 = Inr s"
    and "no_overlap I anchorBoxes labelBox xIds yIds" and "maxIou s0 = Fin 0"
  shows "maxIou s = Fin 0 \<and> bestAnchor s = bestAnchor s0 \<and> bestAnchorId s = bestAnchorId s0"
proof -
  let ?P = "\<lambda>u. maxIou u = Fin 0 \<and> bestAnchor u = bestAnchor s0 \<and> bestAnchorId u = bestAnchorId s0"
  have 1: "?P u'"
    if "xId \<in> set xIds" "yId \<in> set yIds"
      "efold (anchor_step I diags labelBox oc xId yId) (enumerate_anchors anchorBoxes) u = Inr u'"
      "?P u"
    for xId yId u u'
  proof (rule efold_invariant_mem [OF that(3), where P = ?P])
    show "?P u" by (rule that(4))
  next
    fix v ca v'
    assume ca: "ca \<in> set (enumerate_anchors anchorBoxes)"
      and st: "anchor_step I diags labelBox oc xId yId v ca = Inr v'" and pv: "?P v"
    from ca have "(fst ca, snd ca) \<in> set (zip (count_upto (length anchorBoxes)) anchorBoxes)"
      unfolding enumerate_anchors_def by simp
    then have "snd ca \<in> set anchorBoxes" by (rule set_zip_rightD)
    with assms(2) that(1,2) pv have "\<not> fl_less (maxIou v)
            (iou (place_anchor (angle_threshold I) (cell_x I xId) (cell_y I yId) labelBox (snd ca))
               labelBox)"
      unfolding no_overlap_def by simp
    from anchor_step_best [OF st this] pv show "?P v'" by simp
  qed
  have 2: "?P u'"
    if "xId \<in> set xIds"
      "efold (\<lambda>s yId. efold (anchor_step I diags labelBox oc xId yId)
          (enumerate_anchors anchorBoxes) s) yIds u = Inr u'"
      "?P u"
    for xId u u'
    by (rule efold_invariant_mem [OF that(2), where P = ?P]) (rule that(3), rule 1 [OF that(1)])
  show ?thesis
    by (rule efold_invariant_mem [OF assms(1) [unfolded search_window_def], where P = ?P])
       (simp add: assms(3), rule 2)
qed

lemma fdiv_zero: "\<not> is_finite (fdiv v 0)"
  by (simp add: fdiv_def)

lemma flog_fdiv_zero: "\<not> is_finite (flog (fdiv v 0))"
  by (simp add: fdiv_def)

lemma diagonal_zero_box: "diagonal zero_box = 0"
  by (simp add: diagonal_def zero_box_def)

subsection \<open>Evaluation of createPillarsTarget\<close>

lemmas geo_defs = iou_def boundingBox3DToTopDown_def rotatedX_def rotatedY_def sutherlandHodgmanClip_def
  clip_def clip_edge_def xIntersect_def yIntersect_def polygonArea_def Let_def fdiv_def

lemma sqrt_25: "sqrt 25 = 5"
  using real_sqrt_abs [of 5] by simp

lemma fmod_0: "fmod 0 b = 0"
  by (simp add: fmod_def trunc_def)

lemma place_A1: "place_anchor (1/10) px py L1 A1 = A1\<lparr>box_x := px, box_y := py\<rparr>"
  by (simp add: place_anchor_def L1_def A1_def fmod_0)

lemma iou_00: "iou (A1\<lparr>box_x := 0, box_y := 0\<rparr>) L1 = Fin (65/127)"
  by (simp add: geo_defs A1_def L1_def)

lemma iou_10: "iou (A1\<lparr>box_x := 1, box_y := 0\<rparr>) L1 = Fin (25/39)"
  by (simp add: geo_defs A1_def L1_def)

lemma iou_01: "iou (A1\<lparr>box_x := 0, box_y := 1\<rparr>) L1 = Fin (65/127)"
  by (simp add: geo_defs A1_def L1_def)

lemma iou_11: "iou (A1\<lparr>box_x := 1, box_y := 1\<rparr>) L1 = Fin (25/39)"
  by (simp add: geo_defs A1_def L1_def)

lemma sizes_I1:
  "floor_to_int (fdiv (xMax (bounds I1) - xMin (bounds I1))
      (xStep (bounds I1) * of_int (downscalingFactor I1))) = Inr 2"
  "floor_to_int (fdiv (yMax (bounds I1) - yMin (bounds I1))
      (yStep (bounds I1) * of_int (downscalingFactor I1))) = Inr 2"
  by (simp_all add: I1_def G1_def fdiv_def int_range_def)

lemma parse_anchors_I1: "efold (parse_anchor I1) (count_upto 1) [] = Inr [A1]"
  by (simp add: count_upto_def parse_anchor_def at_2_def at1_def ebind_def I1_def A1_def)

lemma parse_labels_I1: "efold (parse_label I1) (count_upto 2) [] = Inr [L1]"
  by (simp add: count_upto_def upt_rec parse_label_def at_2_def at1_def ebind_def I1_def L1_def
      outside_grid_def G1_def)

lemmas run_defs = anchor_step_def enumerate_anchors_def count_upto_def positive_writes_def
  mutable_at_def in_range_def ebind_def Let_def

lemma search_I1:
  "0 < n \<Longrightarrow> search_window I1 [A1] [5] L1 0 [0, 1] [0, 1]
     \<lparr>maxIou = Fin 0, bestAnchor = zero_box, bestAnchorId = 0,
      target = \<lparr>dims = [n, 2, 2, 1, 10], elems = (\<lambda>_. Fin 0)\<rparr>\<rparr>
   = Inr (S1 n)"
  by (simp add: S1_def search_window_def run_defs I1_def G1_def place_A1 iou_00 iou_10 iou_01 iou_11)

lemma fallback_I1:
  "0 < n \<Longrightarrow> \<exists>E. fallback I1 2 2 L1 0 (S1 n) = Inr \<lparr>dims = [n, 2, 2, 1, 10], elems = E\<rparr> \<and>
     E [0, 0, 0, 0, 0] = Fin 1 \<and> E [0, 0, 0, 0, 1] = Fin (3/20) \<and> E [0, 0, 0, 0, 2] = Fin (1/10) \<and>
     E [0, 0, 0, 0, 7] = Fin 0 \<and> E [0, 0, 0, 0, 8] = Fin 0 \<and> E [0, 0, 0, 0, 9] = Fin 1 \<and>
     E [0, 1, 0, 0, 0] = Fin (- 1) \<and> E [1, 0, 0, 0, 0] = Fin 0"
  by (simp add: fallback_def cell_of_def offsets_def fallback_step_def clip_int_def S1_def
      positive_writes_def mutable_at_def in_range_def ebind_def Let_def I1_def G1_def L1_def A1_def
      fdiv_def int_range_def sqrt_25 fmod_0 heading_flip_zero yaw_sine_def)

lemma diagonal_A1: "diagonal A1 = 5"
  by (simp add: diagonal_def A1_def sqrt_25)

lemma int_upto_0_2: "int_upto 0 2 = [0, 1]"
  by (simp add: int_upto_def upt_rec)

lemma encode_I1:
  assumes "0 < n"
  shows "\<exists>E. encode_object I1 2 2 [A1] [5]
            (0, \<lparr>dims = [n, 2, 2, 1, 10], elems = (\<lambda>_. Fin 0)\<rparr>) L1
          = Inr (1, \<lparr>dims = [n, 2, 2, 1, 10], elems = E\<rparr>) \<and>
     E [0, 0, 0, 0, 0] = Fin 1 \<and> E [0, 0, 0, 0, 1] = Fin (3/20) \<and> E [0, 0, 0, 0, 2] = Fin (1/10) \<and>
     E [0, 0, 0, 0, 7] = Fin 0 \<and> E [0, 0, 0, 0, 8] = Fin 0 \<and> E [0, 0, 0, 0, 9] = Fin 1 \<and>
     E [0, 1, 0, 0, 0] = Fin (- 1) \<and> E [1, 0, 0, 0, 0] = Fin 0"
proof -
  have a: "ceil_to_int (fdiv (sqrt ((box_width L1)\<^sup>2 + (box_length L1)\<^sup>2))
      (xStep (bounds I1) * of_int (downscalingFactor I1))) = Inr 5"
    by (simp add: L1_def I1_def G1_def sqrt_25 fdiv_def int_range_def)
  have b: "cell_of (box_x L1) (xMin (bounds I1)) (xStep (bounds I1)) (downscalingFactor I1) = Inr 0"
    "cell_of (box_y L1) (yMin (bounds I1)) (yStep (bounds I1)) (downscalingFactor I1) = Inr 0"
    by (simp_all add: cell_of_def L1_def I1_def G1_def fdiv_def int_range_def)
  have c: "fl_less (maxIou (S1 n)) (Fin (positiveThreshold I1))"
    by (simp add: S1_def I1_def)
  from fallback_I1 [OF assms] obtain E where
    E: "fallback I1 2 2 L1 0 (S1 n) = Inr \<lparr>dims = [n, 2, 2, 1, 10], elems = E\<rparr>"
    and v: "E [0, 0, 0, 0, 0] = Fin 1 \<and> E [0, 0, 0, 0, 1] = Fin (3/20) \<and> E [0, 0, 0, 0, 2] = Fin (1/10) \<and>
     E [0, 0, 0, 0, 7] = Fin 0 \<and> E [0, 0, 0, 0, 8] = Fin 0 \<and> E [0, 0, 0, 0, 9] = Fin 1 \<and>
     E [0, 1, 0, 0, 0] = Fin (- 1) \<and> E [1, 0, 0, 0, 0] = Fin 0"
    by blast
  have "encode_object I1 2 2 [A1] [5]
            (0, \<lparr>dims = [n, 2, 2, 1, 10], elems = (\<lambda>_. Fin 0)\<rparr>) L1
          = Inr (1, \<lparr>dims = [n, 2, 2, 1, 10], elems = E\<rparr>)"
    unfolding encode_object_def Let_def fst_conv snd_conv a b
    by (simp add: ebind_def clip_int_def int_upto_0_2 search_I1 [OF assms] c E)
  with v show ?thesis by blast
qed

lemma run_I1:
  "\<exists>E. createPillarsTarget I1 = Inr \<lparr>dims = [2, 2, 2, 1, 10], elems = E\<rparr> \<and>
     E [0, 0, 0, 0, 0] = Fin 1 \<and> E [0, 0, 0, 0, 1] = Fin (3/20) \<and> E [0, 0, 0, 0, 2] = Fin (1/10) \<and>
     E [0, 0, 0, 0, 7] = Fin 0 \<and> E [0, 0, 0, 0, 8] = Fin 0 \<and> E [0, 0, 0, 0, 9] = Fin 1 \<and>
     E [0, 1, 0, 0, 0] = Fin (- 1) \<and> E [1, 0, 0, 0, 0] = Fin 0"
proof -
  from encode_I1 [of 2] obtain E where
    E: "encode_object I1 2 2 [A1] [5]
            (0, \<lparr>dims = [2, 2, 2, 1, 10], elems = (\<lambda>_. Fin 0)\<rparr>) L1
          = Inr (1, \<lparr>dims = [2, 2, 2, 1, 10], elems = E\<rparr>)"
    and v: "E [0, 0, 0, 0, 0] = Fin 1 \<and> E [0, 0, 0, 0, 1] = Fin (3/20) \<and> E [0, 0, 0, 0, 2] = Fin (1/10) \<and>
     E [0, 0, 0, 0, 7] = Fin 0 \<and> E [0, 0, 0, 0, 8] = Fin 0 \<and> E [0, 0, 0, 0, 9] = Fin 1 \<and>
     E [0, 1, 0, 0, 0] = Fin (- 1) \<and> E [1, 0, 0, 0, 0] = Fin 0"
    by auto
  have n: "length (anchorDimensions I1) = 1" "length (objectDimensions I1) = 2"
    by (simp_all add: I1_def)
  have pa: "efold (parse_anchor I1) (count_upto (length (anchorDimensions I1))) [] = Inr [A1]"
    unfolding n by (rule parse_anchors_I1)
  have pl: "efold (parse_label I1) (count_upto (length (objectDimensions I1))) [] = Inr [L1]"
    unfolding n by (rule parse_labels_I1)
  have "createPillarsTarget I1 = Inr \<lparr>dims = [2, 2, 2, 1, 10], elems = E\<rparr>"
    unfolding createPillarsTarget_def Let_def sizes_I1 pa pl
    by (simp add: ebind_def n zeros_def diagonal_A1 E)
  with v show ?thesis by blast
qed



lemma sqrt_quarter: "sqrt (1/4) = 1/2"
  using real_sqrt_abs [of "1/2"] by (simp add: power2_eq_square)

lemma place_A3: "place_anchor (1/10) px py L3 A3 = A3\<lparr>box_x := px, box_y := py\<rparr>"
  by (simp add: place_anchor_def L3_def A3_def fmod_0)

lemma iou_A3: "iou (A3\<lparr>box_x := 0, box_y := 0\<rparr>) L3 = Fin 0"
  by (simp add: geo_defs A3_def L3_def)

lemma sizes_I3:
  "floor_to_int (fdiv (xMax (bounds (I3 pt)) - xMin (bounds (I3 pt)))
      (xStep (bounds (I3 pt)) * of_int (downscalingFactor (I3 pt)))) = Inr 2"
  "floor_to_int (fdiv (yMax (bounds (I3 pt)) - yMin (bounds (I3 pt)))
      (yStep (bounds (I3 pt)) * of_int (downscalingFactor (I3 pt)))) = Inr 2"
  by (simp_all add: I3_def G1_def fdiv_def int_range_def)

lemma parse_anchors_I3: "efold (parse_anchor (I3 pt)) (count_upto 1) [] = Inr [A3]"
  by (simp add: count_upto_def parse_anchor_def at_2_def at1_def ebind_def I3_def A3_def)

lemma parse_labels_I3: "efold (parse_label (I3 pt)) (count_upto 1) [] = Inr [L3]"
  by (simp add: count_upto_def parse_label_def at_2_def at1_def ebind_def I3_def L3_def
      outside_grid_def G1_def)

lemma diagonal_A3: "diagonal A3 = 1/2"
  by (simp add: diagonal_def A3_def power2_eq_square sqrt_quarter)

lemma home_I3:
  "cell_of (box_x L3) (xMin (bounds (I3 pt))) (xStep (bounds (I3 pt))) (downscalingFactor (I3 pt)) = Inr 0"
  "cell_of (box_y L3) (yMin (bounds (I3 pt))) (yStep (bounds (I3 pt))) (downscalingFactor (I3 pt)) = Inr 0"
  by (simp_all add: cell_of_def L3_def I3_def G1_def fdiv_def int_range_def)

lemma ceiling_half: "\<lceil>1 / 2 :: real\<rceil> = 1"
  by (rule ceiling_unique) simp_all

lemma offset_I3:
  "ceil_to_int (fdiv (sqrt ((box_width L3)\<^sup>2 + (box_length L3)\<^sup>2))
      (xStep (bounds (I3 pt)) * of_int (downscalingFactor (I3 pt)))) = Inr 1"
  by (simp add: L3_def I3_def G1_def power2_eq_square sqrt_quarter fdiv_def int_range_def
      ceiling_half)

lemma int_upto_0_1: "int_upto 0 1 = [0]"
  by (simp add: int_upto_def)

lemma search_I3:
  "0 \<le> pt \<Longrightarrow> search_window (I3 pt) [A3] [1/2] L3 0 [0] [0]
     \<lparr>maxIou = Fin 0, bestAnchor = zero_box, bestAnchorId = 0,
      target = \<lparr>dims = [1, 2, 2, 1, 10], elems = (\<lambda>_. Fin 0)\<rparr>\<rparr>
   = Inr S3"
  by (simp add: S3_def search_window_def run_defs I3_def G1_def place_A3 iou_A3)

lemma no_overlap_I3: "no_overlap (I3 pt) [A3] L3 [0] [0]"
  by (simp add: no_overlap_def cell_x_def cell_y_def I3_def G1_def place_A3 iou_A3)

lemma run_I3:
  "createPillarsTarget (I3 0)
     = Inr \<lparr>dims = [1, 2, 2, 1, 10], elems = (\<lambda>_. Fin 0)([0, 0, 0, 0, 0] := Fin (- 1))\<rparr>"
proof -
  have g: "\<not> fl_less (maxIou S3) (Fin (positiveThreshold (I3 0)))"
    by (simp add: S3_def I3_def)
  have e: "encode_object (I3 0) 2 2 [A3] [1/2]
            (0, \<lparr>dims = [1, 2, 2, 1, 10], elems = (\<lambda>_. Fin 0)\<rparr>) L3 = Inr (1, target S3)"
    unfolding encode_object_def Let_def fst_conv snd_conv offset_I3 home_I3
    by (simp add: ebind_def clip_int_def int_upto_0_1 search_I3 g)
  have n: "length (anchorDimensions (I3 0)) = 1" "length (objectDimensions (I3 0)) = 1"
    by (simp_all add: I3_def)
  have pa: "efold (parse_anchor (I3 0)) (count_upto (length (anchorDimensions (I3 0)))) [] = Inr [A3]"
    unfolding n by (rule parse_anchors_I3)
  have pl: "efold (parse_label (I3 0)) (count_upto (length (objectDimensions (I3 0)))) [] = Inr [L3]"
    unfolding n by (rule parse_labels_I3)
  show ?thesis
    unfolding createPillarsTarget_def Let_def sizes_I3 pa pl
    by (simp add: ebind_def n zeros_def diagonal_A3 e S3_def)
qed

lemma fallback_I3:
  "\<exists>E. fallback (I3 (1/2)) 2 2 L3 0 S3 = Inr \<lparr>dims = [1, 2, 2, 1, 10], elems = E\<rparr> \<and>
     E [0, 0, 0, 0, 1] = PInf \<and> E [0, 0, 0, 0, 3] = NaN \<and> E [0, 0, 0, 0, 4] = PInf"
  by (simp add: fallback_def cell_of_def offsets_def fallback_step_def clip_int_def S3_def
      positive_writes_def mutable_at_def in_range_def ebind_def Let_def I3_def G1_def L3_def
      zero_box_def fdiv_def int_range_def fmod_0 heading_flip_zero yaw_sine_def)

subsection \<open>Geometry\<close>

text \<open>The divisor of the two intersection routines is the difference of the positions of
  the two end points of the edge, so it is not zero where \<open>clip_edge\<close> calls them.\<close>

lemma clip_den:
  "(x1 - x2) * (iy - ky) - (y1 - y2) * (ix - kx)
   = ((x2 - x1) * (ky - y1) - (y2 - y1) * (kx - x1)) - ((x2 - x1) * (iy - y1) - (y2 - y1) * (ix - x1))"
  for x1 :: real
  by (simp add: algebra_simps)

lemma clip_den_nonzero:
  fixes x1 :: real
  assumes "(x2 - x1) * (iy - y1) - (y2 - y1) * (ix - x1) < 0 \<and> 0 \<le> (x2 - x1) * (ky - y1) - (y2 - y1) * (kx - x1)
    \<or> 0 \<le> (x2 - x1) * (iy - y1) - (y2 - y1) * (ix - x1) \<and> (x2 - x1) * (ky - y1) - (y2 - y1) * (kx - x1) < 0"
  shows "(x1 - x2) * (iy - ky) - (y1 - y2) * (ix - kx) \<noteq> 0"
  using assms clip_den [of x1 x2 iy ky y1 y2 ix kx] by linarith

text \<open>\<open>iou\<close> takes the corners of the second box as a clockwise clipper. For a box with
  a negative length the order is reversed and the two orders of the arguments give
  different values; for two boxes without area the value is NaN, which compares unequal
  to itself.\<close>

lemma iou_reversed_box: "iou boxA boxB = Fin 0 \<and> iou boxB boxA = Fin (1/4)"
  by (simp add: geo_defs boxA_def boxB_def)

lemma iou_zero_boxes: "iou zero_box zero_box = NaN \<and> \<not> fl_eq (iou zero_box zero_box) (iou zero_box zero_box)"
  by (simp add: geo_defs zero_box_def)

subsection \<open>The claims on createPillarsTarget\<close>




text \<open>
  C2. The flag written to channel 8 by a positive assignment, at either place of the
  source, is \<open>heading_flip\<close> of \<open>fmod (labelYaw - anchorBaseYaw) (2 * pi)\<close>: 1 when the
  absolute value is below \<open>pi / 2\<close> and above \<open>1.5 * pi\<close> at once, else 0. No value
  satisfies both (lemma \<open>heading_flip_zero\<close>), so channel 8 is 0 in every cell of
  every array createPillarsTarget returns.
\<close>

theorem heading_flip_never_set:
  assumes "createPillarsTarget I = Inr t"
  shows "elems t [objectCount, xId, yId, a, 8] = Fin 0"
proof (rule createPillarsTarget_Inr [OF assms])
  fix xSize ySize anchorBoxes labelBoxes oc
  assume e: "efold (encode_object I xSize ySize anchorBoxes (map diagonal anchorBoxes)) labelBoxes
       (0, \<lparr>dims = [int (length (objectDimensions I)), xSize, ySize,
                     int (length (anchorDimensions I)), 10], elems = (\<lambda>_. Fin 0)\<rparr>)
     = Inr (oc, t)"
  have "holds flip_zero \<lparr>dims = [int (length (objectDimensions I)), xSize, ySize,
                     int (length (anchorDimensions I)), 10], elems = (\<lambda>_. Fin 0)\<rparr>"
    by (simp add: holds_def flip_zero_def)
  then have "holds flip_zero (snd (oc, t)) \<and> fst (oc, t) = 0 + int (length labelBoxes)"
    by (rule objects_holds [OF e]) (rule target_write_flip_zero)
  then have "flip_zero [objectCount, xId, yId, a, 8] (elems t [objectCount, xId, yId, a, 8])"
    by (simp add: holds_def)
  then show ?thesis unfolding flip_zero_def by blast
qed

theorem heading_flip_never_set_witness:
  "cell_value (createPillarsTarget I1) [0, 0, 0, 0, 0] = Some (Fin 1) \<and>
   cell_value (createPillarsTarget I1) [0, 0, 0, 0, 8] = Some (Fin 0)"
proof -
  from run_I1 obtain E where r: "createPillarsTarget I1 = Inr \<lparr>dims = [2, 2, 2, 1, 10], elems = E\<rparr>"
    and v: "E [0, 0, 0, 0, 0] = Fin 1" by blast
  from heading_flip_never_set [OF r, of 0 0 0 0] v r show ?thesis
    by (simp add: cell_value_def)
qed






text \<open>
  C10, as the code has it. If no placement of an anchor in the search window of an object
  has an IOU above zero (also when the window is empty), the search leaves \<open>maxIou = 0\<close>
  and the best anchor as it was initialised, all zero with anchor id 0. The fallback runs
  when \<open>positiveThreshold\<close> is above zero; where it returns, for a home cell that is not
  negative, it writes the label 1 for anchor 0 at the clipped home cell and non-finite
  values into channels 1 to 6 there: the divisors are the zero diagonal, height, length
  and width of that anchor.
\<close>

theorem zero_best_anchor_written:
  assumes "search_window I anchorBoxes diags labelBox objectCount xIds yIds
             \<lparr>maxIou = Fin 0, bestAnchor = zero_box, bestAnchorId = 0, target = t\<rparr> = Inr s"
    and "no_overlap I anchorBoxes labelBox xIds yIds"
    and "0 < positiveThreshold I"
    and "fallback I xSize ySize labelBox objectCount s = Inr t'"
    and "cell_of (box_x labelBox) (xMin (bounds I)) (xStep (bounds I)) (downscalingFactor I) = Inr xId_0"
    and "cell_of (box_y labelBox) (yMin (bounds I)) (yStep (bounds I)) (downscalingFactor I) = Inr yId_0"
    and "0 \<le> xId_0" and "0 \<le> yId_0"
  shows "fl_less (maxIou s) (Fin (positiveThreshold I)) \<and> bestAnchor s = zero_box \<and>
         bestAnchorId s = 0 \<and>
         elems t' [objectCount, clip_int xId_0 0 (xSize - 1), clip_int yId_0 0 (ySize - 1), 0, 0]
           = Fin 1 \<and>
         (\<forall>c \<in> {1..6}. \<not> is_finite
            (elems t' [objectCount, clip_int xId_0 0 (xSize - 1), clip_int yId_0 0 (ySize - 1), 0, c]))"
proof -
  from search_no_overlap [OF assms(1,2)]
  have b: "maxIou s = Fin 0" "bestAnchor s = zero_box" "bestAnchorId s = 0" by simp_all
  let ?xc = "clip_int xId_0 0 (xSize - 1)" and ?yc = "clip_int yId_0 0 (ySize - 1)"
  from fallback_centre [OF assms(4,5,6,7,8)] b
  have l: "elems t' [objectCount, ?xc, ?yc, 0, 0] = Fin 1" by simp
  have n: "\<not> is_finite (elems t' [objectCount, ?xc, ?yc, 0, c])" if c: "c \<in> {1..6}" for c
  proof (rule fallback_Inr [OF assms(4,5,6)])
    fix t1 t2
    let ?ws = "positive_writes objectCount ?xc ?yc (bestAnchorId s) labelBox (bestAnchor s)
        (cell_x I ?xc) (cell_y I ?yc) (diagonal (bestAnchor s))"
    let ?post = "[(0, 1), (0, 2), (1, -2), (1, -1), (1, 0), (1, 1), (1, 2), (2, -2), (2, -1),
              (2, 0), (2, 1), (2, 2)] :: (int \<times> int) list"
    assume w: "write_all t1 ?ws = Inr t2"
      and p: "efold (fallback_step I xSize ySize labelBox objectCount (bestAnchor s) (bestAnchorId s)
         xId_0 yId_0) ?post t2 = Inr t'"
    from c have c0: "c \<noteq> 0" by simp
    have keep: "elems t' [objectCount, ?xc, ?yc, 0, c] = elems t2 [objectCount, ?xc, ?yc, 0, c]"
    proof (rule efold_invariant_mem [OF p,
          where P = "\<lambda>u. elems u [objectCount, ?xc, ?yc, 0, c] = elems t2 [objectCount, ?xc, ?yc, 0, c]"])
      show "elems t2 [objectCount, ?xc, ?yc, 0, c] = elems t2 [objectCount, ?xc, ?yc, 0, c]" ..
    next
      fix u d u'
      assume d: "d \<in> set ?post"
        and f: "fallback_step I xSize ySize labelBox objectCount (bestAnchor s) (bestAnchorId s)
            xId_0 yId_0 u d = Inr u'"
        and h: "elems u [objectCount, ?xc, ?yc, 0, c] = elems t2 [objectCount, ?xc, ?yc, 0, c]"
      from d have "d \<noteq> (0, 0)" by auto
      from fallback_step_channels [OF f this c0] h
      show "elems u' [objectCount, ?xc, ?yc, 0, c] = elems t2 [objectCount, ?xc, ?yc, 0, c]" by simp
    qed
    from c have "c = 1 \<or> c = 2 \<or> c = 3 \<or> c = 4 \<or> c = 5 \<or> c = 6" by auto
    then have "\<exists>v. ([objectCount, ?xc, ?yc, 0, c], v) \<in> set ?ws \<and> \<not> is_finite v"
      unfolding b diagonal_zero_box positive_writes_def
      by (elim disjE) (simp_all add: fdiv_zero flog_fdiv_zero zero_box_def)
    then obtain v where v: "([objectCount, ?xc, ?yc, 0, c], v) \<in> set ?ws" "\<not> is_finite v" by blast
    from write_all_value [OF w positive_writes_distinct v(1)] v(2) keep
    show ?thesis by simp
  qed
  from b assms(3) l n show ?thesis by simp
qed

theorem zero_best_anchor_written_witness:
  "no_overlap (I3 (1/2)) [A3] L3 [0] [0] \<and>
   search_window (I3 (1/2)) [A3] [1/2] L3 0 [0] [0]
     \<lparr>maxIou = Fin 0, bestAnchor = zero_box, bestAnchorId = 0,
      target = \<lparr>dims = [1, 2, 2, 1, 10], elems = (\<lambda>_. Fin 0)\<rparr>\<rparr> = Inr S3 \<and>
   bestAnchor S3 = zero_box \<and>
   cell_value (fallback (I3 (1/2)) 2 2 L3 0 S3) [0, 0, 0, 0, 0] = Some (Fin 1) \<and>
   cell_value (fallback (I3 (1/2)) 2 2 L3 0 S3) [0, 0, 0, 0, 1] = Some PInf \<and>
   cell_value (fallback (I3 (1/2)) 2 2 L3 0 S3) [0, 0, 0, 0, 3] = Some NaN \<and>
   cell_value (fallback (I3 (1/2)) 2 2 L3 0 S3) [0, 0, 0, 0, 4] = Some PInf"
proof -
  from fallback_I3 obtain E where
    f: "fallback (I3 (1/2)) 2 2 L3 0 S3 = Inr \<lparr>dims = [1, 2, 2, 1, 10], elems = E\<rparr>"
    and v: "E [0, 0, 0, 0, 1] = PInf" "E [0, 0, 0, 0, 3] = NaN" "E [0, 0, 0, 0, 4] = PInf"
    by blast
  have s: "search_window (I3 (1/2)) [A3] [1/2] L3 0 [0] [0]
     \<lparr>maxIou = Fin 0, bestAnchor = zero_box, bestAnchorId = 0,
      target = \<lparr>dims = [1, 2, 2, 1, 10], elems = (\<lambda>_. Fin 0)\<rparr>\<rparr> = Inr S3"
    by (rule search_I3) simp
  have p: "0 < positiveThreshold (I3 (1/2))" by (simp add: I3_def)
  have c: "clip_int 0 0 (2 - 1) = 0" by (simp add: clip_int_def)
  from zero_best_anchor_written [OF s no_overlap_I3 p f home_I3]
  have "bestAnchor S3 = zero_box" "E [0, 0, 0, 0, 0] = Fin 1" unfolding c by simp_all
  with f v s no_overlap_I3 show ?thesis by (simp add: cell_value_def)
qed

text \<open>
  C10 as stated fails when \<open>positiveThreshold\<close> is zero: the only candidate of the
  object of \<open>I3 0\<close> has IOU 0, the test \<open>maxIou < positiveThreshold\<close> is false, the
  fallback does not run, and the result holds one label -1 and otherwise zeros.
\<close>

theorem zero_best_anchor_counterexample:
  "\<not> outside_grid (bounds (I3 0)) (1/2) (1/2) \<and>
   iou (place_anchor (angle_threshold (I3 0)) (cell_x (I3 0) 0) (cell_y (I3 0) 0) L3 A3) L3 = Fin 0 \<and>
   createPillarsTarget (I3 0)
     = Inr \<lparr>dims = [1, 2, 2, 1, 10], elems = (\<lambda>_. Fin 0)([0, 0, 0, 0, 0] := Fin (- 1))\<rparr>"
proof -
  have "\<not> outside_grid (bounds (I3 0)) (1/2) (1/2)"
    by (simp add: outside_grid_def I3_def G1_def)
  moreover have "iou (place_anchor (angle_threshold (I3 0)) (cell_x (I3 0) 0) (cell_y (I3 0) 0) L3 A3) L3
      = Fin 0"
    by (simp add: cell_x_def cell_y_def I3_def G1_def place_A3 iou_A3)
  ultimately show ?thesis using run_I3 by simp
qed

end
